theory Spec2Isabelle
  imports Complex_Main "HOL-Library.AList" "HOL-Library.Log_Nat"
begin

section \<open>JavaScript numbers\<close>

text \<open>
  A JavaScript number is an IEEE 754 double: a rational with a significand of 53 bits, an
  infinity, or \<^verbatim>\<open>NaN\<close>. Every arithmetic operation computes the exact result and rounds it
  to the nearest double, ties to the even significand. The sign of zero is not kept: it
  could show only in the sign of a quotient by zero, and the one quotient of the program is
  multiplied by its divisor afterwards, which gives \<^verbatim>\<open>NaN\<close> for a zero divisor whatever
  the sign.

  \<open>exponent x\<close> is the binary exponent of \<open>x \<noteq> 0\<close>, that is \<open>2 ^ e \<le> |x| < 2 ^ (e + 1)\<close>.
  The spacing of the doubles around \<open>x\<close> is \<open>2 ^ (e - 52)\<close>, and \<open>2 ^ (- 1074)\<close> below the
  normal range; a result of magnitude \<open>2 ^ 1024\<close> overflows.
\<close>

datatype number = Finite rat | PosInfinity | NegInfinity | NaN

definition exponent :: "rat \<Rightarrow> int" where
  "exponent x =
     (case quotient_of \<bar>x\<bar> of
        (p, q) \<Rightarrow> let k = bitlen p - bitlen q in if 2 powi k \<le> \<bar>x\<bar> then k else k - 1)"

definition round_half_even :: "rat \<Rightarrow> int" where
  "round_half_even y =
     (let f = \<lfloor>y\<rfloor>; d = y - of_int f
      in if d < 1 / 2 then f else if 1 / 2 < d then f + 1 else if even f then f else f + 1)"

definition round_double :: "rat \<Rightarrow> number" where
  "round_double x =
     (if x = 0 then Finite 0
      else
        let ulp = 2 powi (max (exponent x) (- 1022) - 52);
            r = of_int (round_half_even (x / ulp)) * ulp
        in if 2 ^ 1024 \<le> r then PosInfinity
           else if r \<le> - (2 ^ 1024) then NegInfinity
           else Finite r)"

definition infinite_of :: "bool \<Rightarrow> number" where
  "infinite_of positive = (if positive then PosInfinity else NegInfinity)"

fun js_neg :: "number \<Rightarrow> number" where
  "js_neg (Finite a) = Finite (- a)"
| "js_neg PosInfinity = NegInfinity"
| "js_neg NegInfinity = PosInfinity"
| "js_neg NaN = NaN"

fun js_add :: "number \<Rightarrow> number \<Rightarrow> number" where
  "js_add (Finite a) (Finite b) = round_double (a + b)"
| "js_add (Finite a) PosInfinity = PosInfinity"
| "js_add (Finite a) NegInfinity = NegInfinity"
| "js_add PosInfinity (Finite b) = PosInfinity"
| "js_add NegInfinity (Finite b) = NegInfinity"
| "js_add PosInfinity PosInfinity = PosInfinity"
| "js_add NegInfinity NegInfinity = NegInfinity"
| "js_add PosInfinity NegInfinity = NaN"
| "js_add NegInfinity PosInfinity = NaN"
| "js_add NaN b = NaN"
| "js_add a NaN = NaN"

definition js_sub :: "number \<Rightarrow> number \<Rightarrow> number" where
  "js_sub a b = js_add a (js_neg b)"

fun js_mul :: "number \<Rightarrow> number \<Rightarrow> number" where
  "js_mul (Finite a) (Finite b) = round_double (a * b)"
| "js_mul (Finite a) PosInfinity = (if a = 0 then NaN else infinite_of (0 < a))"
| "js_mul (Finite a) NegInfinity = (if a = 0 then NaN else infinite_of (a < 0))"
| "js_mul PosInfinity (Finite b) = (if b = 0 then NaN else infinite_of (0 < b))"
| "js_mul NegInfinity (Finite b) = (if b = 0 then NaN else infinite_of (b < 0))"
| "js_mul PosInfinity PosInfinity = PosInfinity"
| "js_mul PosInfinity NegInfinity = NegInfinity"
| "js_mul NegInfinity PosInfinity = NegInfinity"
| "js_mul NegInfinity NegInfinity = PosInfinity"
| "js_mul NaN b = NaN"
| "js_mul a NaN = NaN"

text \<open>A finite number divided by zero is an infinity, and \<^verbatim>\<open>0 / 0\<close> is \<^verbatim>\<open>NaN\<close>.\<close>

fun js_div :: "number \<Rightarrow> number \<Rightarrow> number" where
  "js_div (Finite a) (Finite b) =
     (if b = 0 then (if a = 0 then NaN else infinite_of (0 < a)) else round_double (a / b))"
| "js_div (Finite a) PosInfinity = Finite 0"
| "js_div (Finite a) NegInfinity = Finite 0"
| "js_div PosInfinity (Finite b) = infinite_of (0 \<le> b)"
| "js_div NegInfinity (Finite b) = infinite_of (b < 0)"
| "js_div PosInfinity PosInfinity = NaN"
| "js_div PosInfinity NegInfinity = NaN"
| "js_div NegInfinity PosInfinity = NaN"
| "js_div NegInfinity NegInfinity = NaN"
| "js_div NaN b = NaN"
| "js_div a NaN = NaN"

text \<open>\<^verbatim>\<open>Math.ceil\<close>: the integers up to \<open>2 ^ 1024\<close> that bound a double are doubles.\<close>

fun js_ceil :: "number \<Rightarrow> number" where
  "js_ceil (Finite a) = Finite (of_int \<lceil>a\<rceil>)"
| "js_ceil n = n"

text \<open>\<^verbatim>\<open><\<close> and \<^verbatim>\<open>>=\<close>: both are false when an operand is \<^verbatim>\<open>NaN\<close>.\<close>

fun js_less :: "number \<Rightarrow> number \<Rightarrow> bool" where
  "js_less (Finite a) (Finite b) = (a < b)"
| "js_less (Finite a) PosInfinity = True"
| "js_less NegInfinity (Finite b) = True"
| "js_less NegInfinity PosInfinity = True"
| "js_less a b = False"

fun js_greater_eq :: "number \<Rightarrow> number \<Rightarrow> bool" where
  "js_greater_eq (Finite a) (Finite b) = (b \<le> a)"
| "js_greater_eq (Finite a) NegInfinity = True"
| "js_greater_eq PosInfinity (Finite b) = True"
| "js_greater_eq PosInfinity PosInfinity = True"
| "js_greater_eq PosInfinity NegInfinity = True"
| "js_greater_eq NegInfinity NegInfinity = True"
| "js_greater_eq a b = False"

text \<open>The number that an integer literal or a converted integer denotes, when it is a double.\<close>

definition num :: "int \<Rightarrow> number" where
  "num i = Finite (of_int i)"

section \<open>Utilities: \<^verbatim>\<open>src/utils/misc.ts\<close>\<close>








definition calculateNextMasterWindow :: "number \<Rightarrow> number \<Rightarrow> number \<Rightarrow> number \<Rightarrow> number" where
  "calculateNextMasterWindow blockNumber blocksInWindow networksAmount mainPosition =
     (let fullWindow = js_mul blocksInWindow networksAmount;
          offset = js_mul mainPosition blocksInWindow;
          timesPassedByActiveNetwork = js_ceil (js_div (js_sub blockNumber offset) fullWindow)
      in js_add (js_mul fullWindow timesPassedByActiveNetwork) offset)"

text \<open>The second copy of the function in the repository, under its other name.\<close>

definition calculateNextMainWindow :: "number \<Rightarrow> number \<Rightarrow> number \<Rightarrow> number \<Rightarrow> number" where
  "calculateNextMainWindow blockNumber blocksInWindow networksAmount mainPosition =
     (let fullWindow = js_mul blocksInWindow networksAmount;
          offset = js_mul mainPosition blocksInWindow;
          timesPassedByActiveNetwork = js_ceil (js_div (js_sub blockNumber offset) fullWindow)
      in js_add (js_mul fullWindow timesPassedByActiveNetwork) offset)"

section \<open>Constants: \<^verbatim>\<open>src/utils/contants.ts\<close>\<close>

type_synonym Address = string
type_synonym bytes32 = string

definition BLOCK_DURATION :: int where
  "BLOCK_DURATION = 12 * 1000"

definition TOLERANCE_THRESHOLD :: int where
  "TOLERANCE_THRESHOLD = 5 * BLOCK_DURATION"

text \<open>\<^verbatim>\<open>formatBytes32String('KEEP3R')\<close>: the six characters, padded with zero bytes to 32.\<close>

definition KEEP3R_NETWORK_TAG :: bytes32 where
  "KEEP3R_NETWORK_TAG = ''0x4b45455033520000000000000000000000000000000000000000000000000000''"

section \<open>The two upkeep scripts\<close>

text \<open>
  The repository holds two scripts with the same global variables and the same function
  names. The one that sends bundles through \<^verbatim>\<open>Flashbots\<close> has \<^verbatim>\<open>run(flashbots)\<close> and
  \<^verbatim>\<open>tryToWorkJob\<close>; the one built on \<^verbatim>\<open>PrivateBroadcastor\<close> has
  \<^verbatim>\<open>run(upkeepJob, sequencer, provider, workMethod, broadcastMethod)\<close>. Their functions are
  suffixed \<open>_flashbots\<close> and \<open>_broadcast\<close> where they differ.

  An \<^verbatim>\<open>async\<close> function runs without interruption up to its next \<^verbatim>\<open>await\<close>. Each such
  stretch of \<^verbatim>\<open>run\<close>, of \<^verbatim>\<open>tryToWorkJob\<close> and of the block handlers is one function on the
  state here; the stretch after an \<^verbatim>\<open>await\<close> takes the outcome of the awaited promise. A
  \<open>turn\<close> of the event loop runs one stretch, and the order of the turns is the
  interleaving. The fetches of the window size and of the jobs are taken in one piece each,
  with the outcomes of their reads given; the fetch of the networks is taken in one piece
  at the start only, where nothing else can run that writes what it writes. Time is not
  modelled: a timer fires and a block arrives when its turn comes. What \<^verbatim>\<open>console.log\<close>
  and \<^verbatim>\<open>console.debug\<close> print is left out.
\<close>

datatype 'a settled = Fulfilled 'a | Rejected string

text \<open>
  \<^verbatim>\<open>BigNumber.toNumber()\<close> returns the number for an integer below \<open>2^53\<close> in magnitude and
  throws for any other; \<^verbatim>\<open>(await read()).toNumber()\<close> is rejected when the read is, or when
  the conversion throws. The integers that the scripts hold are therefore doubles, and so
  are the block numbers, which the provider converts in the same way.
\<close>

definition toNumber :: "int \<Rightarrow> int settled" where
  "toNumber v = (if \<bar>v\<bar> < 2 ^ 53 then Fulfilled v else Rejected ''overflow'')"

definition await_toNumber :: "int settled \<Rightarrow> int settled" where
  "await_toNumber r = (case r of Rejected e \<Rightarrow> Rejected e | Fulfilled v \<Rightarrow> toNumber v)"

text \<open>
  What the reads of the sequencer contract return, a \<^verbatim>\<open>BigNumber\<close> where the contract
  returns a \<^verbatim>\<open>uint256\<close>: every read may reject, and the indexed reads are given per index.
\<close>

record sequencer =
  totalWindowSize :: "int settled"
  numJobs :: "int settled"
  jobAt :: "int \<Rightarrow> Address settled"
  numNetworks :: "int settled"
  networkAt :: "int \<Rightarrow> bytes32 settled"

text \<open>An \<^verbatim>\<open>UnsubscribeFunction\<close> cancels the block subscription it was returned for.\<close>

datatype UnsubscribeFunction = Unsubscribe nat

text \<open>Where an activation of \<^verbatim>\<open>tryToWorkJob\<close> (or of the per-job closure) stands.\<close>

datatype stage =
    AwaitWorkable
  | AwaitNonce string
  | AwaitPopulate string
  | AwaitSend
  | AwaitBroadcast
  | Returned
  | Threw string

record attempt =
  attempt_job :: Address
  attempt_block :: int
  attempt_stage :: stage

datatype run_stage = AwaitGetBlock | RunReturned | RunThrew string

text \<open>The calls that leave the script, in the order they are made.\<close>

datatype call =
    Workable Address
  | GetTransactionCount
  | PopulateTransactions Address string int
  | SendAndRetryUntilNotWorkable Address
  | BroadcastMethod Address string int
  | GetBlock
  | Unsubscribed nat
  | ConsoleError string

text \<open>Where an activation of \<^verbatim>\<open>fetchAndUpdateNetworksData\<close> stands.\<close>

datatype scan_stage = AwaitNumNetworks | AwaitNetworkAt int | ScanReturned | ScanThrew string

text \<open>
  A closure of \<^verbatim>\<open>run\<close>: \<^verbatim>\<open>windowStart\<close> and \<^verbatim>\<open>windowEnd\<close>. A timer holds the number
  \<^verbatim>\<open>time\<close> passed to \<^verbatim>\<open>setTimeout\<close> as well, and the delay in milliseconds that the
  runtime makes of it.
\<close>

record subscription =
  sub_windowStart :: number
  sub_windowEnd :: number
  sub_active :: bool

record timer =
  timer_time :: number
  timer_delay :: int
  timer_windowStart :: number
  timer_windowEnd :: number
  timer_pending :: bool

text \<open>
  The global variables of a script, its activations, timers and subscriptions, and the calls
  made so far. \<^verbatim>\<open>jobs\<close> is a JavaScript object: its keys keep their insertion order, and the
  value \<^verbatim>\<open>undefined\<close> is \<open>None\<close>. \<^verbatim>\<open>blocksInWindow\<close> and \<^verbatim>\<open>networksAmount\<close> are declared
  without a value and assigned by the fetches before anything reads them; the Flashbots
  script declares \<^verbatim>\<open>keep3rSequencerPosition\<close> in the same way, the broadcastor script
  gives it the initial value 0.
\<close>

record script =
  jobWorkInProgress :: "Address \<rightharpoonup> bool"
  blocksInWindow :: int
  networksAmount :: int
  keep3rSequencerPosition :: int
  jobs :: "(Address \<times> UnsubscribeFunction option) list"
  attempts :: "attempt list"
  runs :: "run_stage list"
  timers :: "timer list"
  subscriptions :: "subscription list"
  scans :: "scan_stage list"
  calls :: "call list"

definition initial :: script where
  "initial = \<lparr> jobWorkInProgress = Map.empty, blocksInWindow = 0, networksAmount = 0,
      keep3rSequencerPosition = 0, jobs = [], attempts = [], runs = [], timers = [],
      subscriptions = [], scans = [], calls = [] \<rparr>"

definition log_call :: "call \<Rightarrow> script \<Rightarrow> script" where
  "log_call c st = st\<lparr>calls := calls st @ [c]\<rparr>"

definition set_stage :: "nat \<Rightarrow> stage \<Rightarrow> script \<Rightarrow> script" where
  "set_stage i s st = st\<lparr>attempts := (attempts st)[i := (attempts st ! i)\<lparr>attempt_stage := s\<rparr>]\<rparr>"

text \<open>Calling the function that \<^verbatim>\<open>blockListener.stream\<close> returned.\<close>

fun unsubscribe :: "UnsubscribeFunction \<Rightarrow> script \<Rightarrow> script" where
  "unsubscribe (Unsubscribe k) st =
     (log_call (Unsubscribed k) st)
       \<lparr>subscriptions :=
          (if k < length (subscriptions st)
           then (subscriptions st)[k := (subscriptions st ! k)\<lparr>sub_active := False\<rparr>]
           else subscriptions st)\<rparr>"

subsection \<open>Keeping the watched variables up to date (the same in both scripts)\<close>

definition fetchBlocksInWindowAndSubscribeToChanges :: "sequencer \<Rightarrow> script \<Rightarrow> unit settled \<times> script" where
  "fetchBlocksInWindowAndSubscribeToChanges seq st =
     (case await_toNumber (totalWindowSize seq) of
        Rejected e \<Rightarrow> (Rejected e, st)
      | Fulfilled w \<Rightarrow> (Fulfilled (), st\<lparr>blocksInWindow := w\<rparr>))"

text \<open>The loop \<^verbatim>\<open>for (let index = 0; index < jobAmount; index++)\<close> over \<^verbatim>\<open>sequencer.jobAt\<close>.\<close>

function jobAddresses_from :: "sequencer \<Rightarrow> int \<Rightarrow> int \<Rightarrow> Address list settled" where
  "jobAddresses_from seq index jobAmount =
     (if index < jobAmount then
        (case jobAt seq index of
           Rejected e \<Rightarrow> Rejected e
         | Fulfilled jobAddress \<Rightarrow>
             (case jobAddresses_from seq (index + 1) jobAmount of
                Rejected e \<Rightarrow> Rejected e
              | Fulfilled rest \<Rightarrow> Fulfilled (jobAddress # rest)))
      else Fulfilled [])"
  by pat_completeness auto
termination
  by (relation "measure (\<lambda>(seq, index, jobAmount). nat (jobAmount - index))") auto

declare jobAddresses_from.simps [simp del]

definition fetchJobsAndSubscribeToChanges :: "sequencer \<Rightarrow> script \<Rightarrow> unit settled \<times> script" where
  "fetchJobsAndSubscribeToChanges seq st =
     (case await_toNumber (numJobs seq) of
        Rejected e \<Rightarrow> (Rejected e, st)
      | Fulfilled jobAmount \<Rightarrow>
          (case jobAddresses_from seq 0 jobAmount of
             Rejected e \<Rightarrow> (Rejected e, st)
           | Fulfilled jobAddresses \<Rightarrow>
               (Fulfilled (),
                st\<lparr>jobs := foldl (\<lambda>js jobAddress. AList.update jobAddress None js)
                                 (jobs st) jobAddresses\<rparr>)))"

text \<open>The handlers of the \<^verbatim>\<open>AddJob\<close> and \<^verbatim>\<open>RemoveJob\<close> events.\<close>

definition AddJob_handler :: "Address \<Rightarrow> script \<Rightarrow> script" where
  "AddJob_handler jobAddress st = st\<lparr>jobs := AList.update jobAddress None (jobs st)\<rparr>"

definition RemoveJob_handler :: "Address \<Rightarrow> script \<Rightarrow> script" where
  "RemoveJob_handler jobAddress st =
     (let st' = (case map_of (jobs st) jobAddress of
                   Some (Some f) \<Rightarrow> unsubscribe f st
                 | _ \<Rightarrow> st)
      in st'\<lparr>jobs := AList.delete jobAddress (jobs st')\<rparr>)"

text \<open>
  \<^verbatim>\<open>fetchAndUpdateNetworksData\<close> awaits \<^verbatim>\<open>sequencer.numNetworks()\<close> and then, in its loop,
  \<^verbatim>\<open>sequencer.networkAt(index)\<close>. From the call to the first \<^verbatim>\<open>await\<close> it writes nothing.
\<close>

definition fetchAndUpdateNetworksData :: "script \<Rightarrow> script" where
  "fetchAndUpdateNetworksData st = st\<lparr>scans := scans st @ [AwaitNumNetworks]\<rparr>"

text \<open>
  The test \<^verbatim>\<open>index < networksAmount\<close> of the loop, which reads the global variable as it is
  at that moment: the loop goes on to the next \<^verbatim>\<open>await\<close>, or it is left and the position
  becomes \<open>-1\<close>.
\<close>

definition networks_loop :: "nat \<Rightarrow> int \<Rightarrow> script \<Rightarrow> script" where
  "networks_loop k index st =
     (if index < networksAmount st then st\<lparr>scans := (scans st)[k := AwaitNetworkAt index]\<rparr>
      else st\<lparr>keep3rSequencerPosition := - 1, scans := (scans st)[k := ScanReturned]\<rparr>)"

text \<open>After \<^verbatim>\<open>numNetworks\<close> settles: the assignment of \<^verbatim>\<open>networksAmount\<close>, and the loop from 0.\<close>

definition fetchAndUpdateNetworksData_numNetworks :: "nat \<Rightarrow> int settled \<Rightarrow> script \<Rightarrow> script" where
  "fetchAndUpdateNetworksData_numNetworks k r st =
     (if k < length (scans st) \<and> scans st ! k = AwaitNumNetworks then
        (case await_toNumber r of
           Rejected e \<Rightarrow> st\<lparr>scans := (scans st)[k := ScanThrew e]\<rparr>
         | Fulfilled numberNetworks \<Rightarrow> networks_loop k 0 (st\<lparr>networksAmount := numberNetworks\<rparr>))
      else st)"

text \<open>After \<^verbatim>\<open>networkAt(index)\<close> settles: the comparison with the tag, and the next round.\<close>

definition fetchAndUpdateNetworksData_networkAt :: "nat \<Rightarrow> bytes32 settled \<Rightarrow> script \<Rightarrow> script" where
  "fetchAndUpdateNetworksData_networkAt k r st =
     (if k < length (scans st) then
        (case scans st ! k of
           AwaitNetworkAt index \<Rightarrow>
             (case r of
                Rejected e \<Rightarrow> st\<lparr>scans := (scans st)[k := ScanThrew e]\<rparr>
              | Fulfilled network \<Rightarrow>
                  if network = KEEP3R_NETWORK_TAG
                  then st\<lparr>keep3rSequencerPosition := index,
                          scans := (scans st)[k := ScanReturned]\<rparr>
                  else networks_loop k (index + 1) st)
         | _ \<Rightarrow> st)
      else st)"

text \<open>
  Activation \<open>k\<close> run to its end with nothing else in between, every \<^verbatim>\<open>networkAt\<close> answered
  by the sequencer.
\<close>

function networks_scan :: "sequencer \<Rightarrow> nat \<Rightarrow> script \<Rightarrow> script" where
  "networks_scan seq k st =
     (if k < length (scans st) then
        (case scans st ! k of
           AwaitNetworkAt index \<Rightarrow>
             networks_scan seq k (fetchAndUpdateNetworksData_networkAt k (networkAt seq index) st)
         | _ \<Rightarrow> st)
      else st)"
  by pat_completeness auto
termination
  by (relation "measure (\<lambda>(seq, k, st).
        if k < length (scans st)
        then (case scans st ! k of AwaitNetworkAt index \<Rightarrow> nat (networksAmount st - index) + 1
              | _ \<Rightarrow> 0)
        else 0)")
    (auto simp: fetchAndUpdateNetworksData_networkAt_def networks_loop_def
      split: settled.splits)

declare networks_scan.simps [simp del]

text \<open>
  \<^verbatim>\<open>fetchNetworksAndSubscribeToChanges\<close> awaits the first activation and registers the
  handlers of \<^verbatim>\<open>AddNetwork\<close> and \<^verbatim>\<open>RemoveNetwork\<close> after it. Until then no other code
  writes \<^verbatim>\<open>networksAmount\<close> or \<^verbatim>\<open>keep3rSequencerPosition\<close>, so this activation is taken
  in one piece.
\<close>

definition fetchNetworksAndSubscribeToChanges :: "sequencer \<Rightarrow> script \<Rightarrow> unit settled \<times> script" where
  "fetchNetworksAndSubscribeToChanges seq st =
     (let k = length (scans st);
          st' = networks_scan seq k
                  (fetchAndUpdateNetworksData_numNetworks k (numNetworks seq)
                     (fetchAndUpdateNetworksData st))
      in (case scans st' ! k of
            ScanThrew e \<Rightarrow> (Rejected e, st')
          | _ \<Rightarrow> (Fulfilled (), st')))"

text \<open>
  The \<^verbatim>\<open>AddNetwork\<close> event has two handlers, registered in this order: the one that stores
  the window size carried by the event, and the one that calls
  \<^verbatim>\<open>fetchAndUpdateNetworksData\<close>. \<^verbatim>\<open>RemoveNetwork\<close> has the second handler only. The
  provider calls every handler on its own, so the second is called also when the conversion
  in the first throws. The handlers return at the first \<^verbatim>\<open>await\<close> of the activation they
  start, which goes on in later turns; a rejection inside it is not caught by anyone.
\<close>

definition AddNetwork_handler :: "int \<Rightarrow> script \<Rightarrow> script" where
  "AddNetwork_handler window st =
     fetchAndUpdateNetworksData
       (case toNumber window of
          Rejected e \<Rightarrow> st
        | Fulfilled w \<Rightarrow> st\<lparr>blocksInWindow := w\<rparr>)"

definition RemoveNetwork_handler :: "script \<Rightarrow> script" where
  "RemoveNetwork_handler st = fetchAndUpdateNetworksData st"

subsection \<open>The Flashbots script: \<^verbatim>\<open>tryToWorkJob\<close>\<close>

text \<open>
  From the call to the first \<^verbatim>\<open>await\<close>: the check of the in-progress flag, then the call of
  \<^verbatim>\<open>job.workable\<close>. The flag is not written here.
\<close>

definition tryToWorkJob :: "Address \<Rightarrow> int \<Rightarrow> script \<Rightarrow> script" where
  "tryToWorkJob job block st =
     (if jobWorkInProgress st job = Some True
      then st\<lparr>attempts := attempts st @
                [\<lparr>attempt_job = job, attempt_block = block, attempt_stage = Returned\<rparr>]\<rparr>
      else (log_call (Workable job) st)
             \<lparr>attempts := attempts st @
                [\<lparr>attempt_job = job, attempt_block = block, attempt_stage = AwaitWorkable\<rparr>]\<rparr>)"

text \<open>The \<^verbatim>\<open>finally\<close> block, and the \<^verbatim>\<open>catch\<close> block followed by it; the function returns after both.\<close>

definition finally_block :: "nat \<Rightarrow> script \<Rightarrow> script" where
  "finally_block i st =
     set_stage i Returned
       (st\<lparr>jobWorkInProgress := (jobWorkInProgress st)(attempt_job (attempts st ! i) \<mapsto> False)\<rparr>)"

definition catch_block :: "nat \<Rightarrow> string \<Rightarrow> script \<Rightarrow> script" where
  "catch_block i e st = finally_block i (log_call (ConsoleError e) st)"

text \<open>
  After \<^verbatim>\<open>job.workable\<close> settles. The \<^verbatim>\<open>await\<close> stands before the \<^verbatim>\<open>try\<close>, so a rejection
  leaves the function. A workable job has its flag set here, and the \<^verbatim>\<open>try\<close> block starts
  with \<^verbatim>\<open>provider.getTransactionCount\<close>.
\<close>

definition tryToWorkJob_workable :: "nat \<Rightarrow> (bool \<times> string) settled \<Rightarrow> script \<Rightarrow> script" where
  "tryToWorkJob_workable i r st =
     (if i < length (attempts st) \<and> attempt_stage (attempts st ! i) = AwaitWorkable then
        (case r of
           Rejected e \<Rightarrow> set_stage i (Threw e) st
         | Fulfilled (isWorkable, args) \<Rightarrow>
             if \<not> isWorkable then set_stage i Returned st
             else set_stage i (AwaitNonce args)
                    (log_call GetTransactionCount
                       (st\<lparr>jobWorkInProgress :=
                             (jobWorkInProgress st)(attempt_job (attempts st ! i) \<mapsto> True)\<rparr>)))
      else st)"

text \<open>
  After the nonce: \<^verbatim>\<open>getMainnetGasType2Parameters\<close> (which returns or throws, its outcome is
  \<open>gas\<close>), then \<^verbatim>\<open>populateTransactions\<close>.
\<close>

definition tryToWorkJob_nonce :: "nat \<Rightarrow> int settled \<Rightarrow> unit settled \<Rightarrow> script \<Rightarrow> script" where
  "tryToWorkJob_nonce i r gas st =
     (if i < length (attempts st) then
        (case attempt_stage (attempts st ! i) of
           AwaitNonce args \<Rightarrow>
             (case r of
                Rejected e \<Rightarrow> catch_block i e st
              | Fulfilled currentNonce \<Rightarrow>
                  (case gas of
                     Rejected e \<Rightarrow> catch_block i e st
                   | Fulfilled _ \<Rightarrow>
                       set_stage i (AwaitPopulate args)
                         (log_call (PopulateTransactions (attempt_job (attempts st ! i)) args
                                      currentNonce) st)))
         | _ \<Rightarrow> st)
      else st)"

text \<open>
  After the transactions are populated: \<^verbatim>\<open>createBundlesWithSameTxs\<close> (outcome \<open>bundles\<close>),
  then \<^verbatim>\<open>sendAndRetryUntilNotWorkable\<close>, which is the broadcast.
\<close>

definition tryToWorkJob_populated :: "nat \<Rightarrow> unit settled \<Rightarrow> unit settled \<Rightarrow> script \<Rightarrow> script" where
  "tryToWorkJob_populated i r bundles st =
     (if i < length (attempts st) then
        (case attempt_stage (attempts st ! i) of
           AwaitPopulate args \<Rightarrow>
             (case r of
                Rejected e \<Rightarrow> catch_block i e st
              | Fulfilled _ \<Rightarrow>
                  (case bundles of
                     Rejected e \<Rightarrow> catch_block i e st
                   | Fulfilled _ \<Rightarrow>
                       set_stage i AwaitSend
                         (log_call (SendAndRetryUntilNotWorkable (attempt_job (attempts st ! i)))
                            st)))
         | _ \<Rightarrow> st)
      else st)"

text \<open>After the broadcast settles: included (\<open>True\<close>), not included (\<open>False\<close>), or an exception.\<close>

definition tryToWorkJob_sent :: "nat \<Rightarrow> bool settled \<Rightarrow> script \<Rightarrow> script" where
  "tryToWorkJob_sent i r st =
     (if i < length (attempts st) \<and> attempt_stage (attempts st ! i) = AwaitSend then
        (case r of
           Rejected e \<Rightarrow> catch_block i e st
         | Fulfilled result \<Rightarrow> finally_block i st)
      else st)"

subsection \<open>The Flashbots script: \<^verbatim>\<open>run\<close>\<close>

text \<open>From the call to \<^verbatim>\<open>await provider.getBlock('latest')\<close>.\<close>

definition run_flashbots :: "script \<Rightarrow> script" where
  "run_flashbots st =
     (if keep3rSequencerPosition st = - 1
      then (log_call (ConsoleError ''The keep3r network is not whitelisted in the sequencer'') st)
             \<lparr>runs := runs st @ [RunReturned]\<rparr>
      else (log_call GetBlock st)\<lparr>runs := runs st @ [AwaitGetBlock]\<rparr>)"

text \<open>
  What the timer of the runtime makes of the second argument of \<^verbatim>\<open>setTimeout\<close>: a delay
  above \<open>2147483647\<close> or below 1, or \<^verbatim>\<open>NaN\<close>, is set to 1 millisecond; any other is
  truncated to an integer.
\<close>

fun setTimeout_delay :: "number \<Rightarrow> int" where
  "setTimeout_delay (Finite t) = (if 1 \<le> t \<and> t \<le> 2147483647 then \<lfloor>t\<rfloor> else 1)"
| "setTimeout_delay t = 1"

text \<open>
  After the block is there: the window, the time to wait, and \<^verbatim>\<open>setTimeout(..., time)\<close>.
  The branch on \<^verbatim>\<open>time > 0\<close> only chooses what is printed.
\<close>

definition run_flashbots_getBlock :: "nat \<Rightarrow> int settled \<Rightarrow> script \<Rightarrow> script" where
  "run_flashbots_getBlock k r st =
     (if k < length (runs st) \<and> runs st ! k = AwaitGetBlock then
        (case r of
           Rejected e \<Rightarrow> st\<lparr>runs := (runs st)[k := RunThrew e]\<rparr>
         | Fulfilled currentBlock \<Rightarrow>
             (let windowStart = calculateNextMasterWindow (num currentBlock)
                                  (num (blocksInWindow st)) (num (networksAmount st))
                                  (num (keep3rSequencerPosition st));
                  windowEnd = js_add windowStart (num (blocksInWindow st));
                  remainderBlocks = js_sub windowStart (num currentBlock);
                  time = js_sub (js_mul remainderBlocks (num BLOCK_DURATION))
                           (num TOLERANCE_THRESHOLD)
              in st\<lparr>runs := (runs st)[k := RunReturned],
                    timers := timers st @
                      [\<lparr>timer_time = time, timer_delay = setTimeout_delay time,
                        timer_windowStart = windowStart, timer_windowEnd = windowEnd,
                        timer_pending = True\<rparr>]\<rparr>))
      else st)"

text \<open>The callback of the timer: \<^verbatim>\<open>blockListener.stream\<close> starts a subscription.\<close>

definition timer_callback :: "nat \<Rightarrow> script \<Rightarrow> script" where
  "timer_callback k st =
     (if k < length (timers st) \<and> timer_pending (timers st ! k) then
        st\<lparr>timers := (timers st)[k := (timers st ! k)\<lparr>timer_pending := False\<rparr>],
           subscriptions := subscriptions st @
             [\<lparr>sub_windowStart = timer_windowStart (timers st ! k),
               sub_windowEnd = timer_windowEnd (timers st ! k), sub_active = True\<rparr>]\<rparr>
      else st)"

text \<open>
  The handler of subscription \<open>k\<close> on a block, up to its first \<^verbatim>\<open>await\<close>: every
  \<^verbatim>\<open>tryToWorkJob\<close> of the \<^verbatim>\<open>map\<close> runs to its own first \<^verbatim>\<open>await\<close>, in the order of the keys.
\<close>

definition blockHandler_flashbots :: "nat \<Rightarrow> int \<Rightarrow> script \<Rightarrow> script" where
  "blockHandler_flashbots k number st =
     (if k < length (subscriptions st) \<and> sub_active (subscriptions st ! k) then
        (if js_less (num number) (sub_windowStart (subscriptions st ! k)) then st
         else if js_greater_eq (num number) (sub_windowEnd (subscriptions st ! k))
              then run_flashbots (unsubscribe (Unsubscribe k) st)
         else foldl (\<lambda>s jobAddress. tryToWorkJob jobAddress number s) st (map fst (jobs st)))
      else st)"

text \<open>The start of the script: the three fetches, then \<^verbatim>\<open>run\<close>. A rejection ends it.\<close>

definition main_flashbots :: "sequencer \<Rightarrow> script \<Rightarrow> script" where
  "main_flashbots seq st =
     (case fetchBlocksInWindowAndSubscribeToChanges seq st of
        (Rejected e, st1) \<Rightarrow> st1
      | (Fulfilled _, st1) \<Rightarrow>
          (case fetchJobsAndSubscribeToChanges seq st1 of
             (Rejected e, st2) \<Rightarrow> st2
           | (Fulfilled _, st2) \<Rightarrow>
               (case fetchNetworksAndSubscribeToChanges seq st2 of
                  (Rejected e, st3) \<Rightarrow> st3
                | (Fulfilled _, st3) \<Rightarrow> run_flashbots st3)))"

subsection \<open>The broadcastor script\<close>

text \<open>
  The closure \<^verbatim>\<open>async (jobAddress) => {...}\<close> of the block handler: it calls \<^verbatim>\<open>job.workable\<close>,
  and \<^verbatim>\<open>broadcastMethod\<close> when the job is workable. This script declares
  \<^verbatim>\<open>jobWorkInProgress\<close> and never reads or writes it.
\<close>

definition jobWork_broadcast :: "Address \<Rightarrow> int \<Rightarrow> script \<Rightarrow> script" where
  "jobWork_broadcast jobAddress block st =
     (log_call (Workable jobAddress) st)
       \<lparr>attempts := attempts st @
          [\<lparr>attempt_job = jobAddress, attempt_block = block, attempt_stage = AwaitWorkable\<rparr>]\<rparr>"

definition jobWork_broadcast_workable :: "nat \<Rightarrow> (bool \<times> string) settled \<Rightarrow> script \<Rightarrow> script" where
  "jobWork_broadcast_workable i r st =
     (if i < length (attempts st) \<and> attempt_stage (attempts st ! i) = AwaitWorkable then
        (case r of
           Rejected e \<Rightarrow> set_stage i (Threw e) st
         | Fulfilled (workable, args) \<Rightarrow>
             if workable
             then set_stage i AwaitBroadcast
                    (log_call (BroadcastMethod (attempt_job (attempts st ! i)) args
                                 (attempt_block (attempts st ! i))) st)
             else set_stage i Returned st)
      else st)"

definition jobWork_broadcast_done :: "nat \<Rightarrow> unit settled \<Rightarrow> script \<Rightarrow> script" where
  "jobWork_broadcast_done i r st =
     (if i < length (attempts st) \<and> attempt_stage (attempts st ! i) = AwaitBroadcast then
        (case r of
           Rejected e \<Rightarrow> set_stage i (Threw e) st
         | Fulfilled _ \<Rightarrow> set_stage i Returned st)
      else st)"

text \<open>
  The block handler: the only test is \<^verbatim>\<open>block.number < windowStart\<close>. The function that
  \<^verbatim>\<open>stream\<close> returns is dropped.
\<close>

definition blockHandler_broadcast :: "nat \<Rightarrow> int \<Rightarrow> script \<Rightarrow> script" where
  "blockHandler_broadcast k number st =
     (if k < length (subscriptions st) \<and> sub_active (subscriptions st ! k) then
        (if js_less (num number) (sub_windowStart (subscriptions st ! k)) then st
         else foldl (\<lambda>s jobAddress. jobWork_broadcast jobAddress number s) st (map fst (jobs st)))
      else st)"

text \<open>
  \<^verbatim>\<open>run\<close>, with the outcomes of its reads: the test of the position comes first, then the
  three fetches, the latest block, the window, and the subscription. \<^verbatim>\<open>time\<close> is only
  printed; there is no timer.
\<close>

definition run_broadcast :: "sequencer \<Rightarrow> int settled \<Rightarrow> script \<Rightarrow> script" where
  "run_broadcast seq latest st =
     (if keep3rSequencerPosition st = - 1
      then (log_call (ConsoleError ''The keep3r network is not whitelisted in the sequencer'') st)
             \<lparr>runs := runs st @ [RunReturned]\<rparr>
      else
        (case fetchBlocksInWindowAndSubscribeToChanges seq st of
           (Rejected e, st1) \<Rightarrow> st1\<lparr>runs := runs st1 @ [RunThrew e]\<rparr>
         | (Fulfilled _, st1) \<Rightarrow>
        (case fetchJobsAndSubscribeToChanges seq st1 of
           (Rejected e, st2) \<Rightarrow> st2\<lparr>runs := runs st2 @ [RunThrew e]\<rparr>
         | (Fulfilled _, st2) \<Rightarrow>
        (case fetchNetworksAndSubscribeToChanges seq st2 of
           (Rejected e, st3) \<Rightarrow> st3\<lparr>runs := runs st3 @ [RunThrew e]\<rparr>
         | (Fulfilled _, st3) \<Rightarrow>
        (case latest of
           Rejected e \<Rightarrow> (log_call GetBlock st3)\<lparr>runs := runs st3 @ [RunThrew e]\<rparr>
         | Fulfilled currentBlock \<Rightarrow>
             (let windowStart = calculateNextMasterWindow (num currentBlock)
                                  (num (blocksInWindow st3)) (num (networksAmount st3))
                                  (num (keep3rSequencerPosition st3));
                  windowEnd = js_add windowStart (num (blocksInWindow st3))
              in (log_call GetBlock st3)
                   \<lparr>runs := runs st3 @ [RunReturned],
                    subscriptions := subscriptions st3 @
                      [\<lparr>sub_windowStart = windowStart, sub_windowEnd = windowEnd,
                        sub_active = True\<rparr>]\<rparr>))))))"

subsection \<open>Turns of the event loop\<close>

datatype turn =
    NewBlock int
  | TimerFires nat
  | GetBlockSettles nat "int settled"
  | WorkableSettles nat "(bool \<times> string) settled"
  | NonceSettles nat "int settled" "unit settled"
  | PopulateSettles nat "unit settled" "unit settled"
  | SendSettles nat "bool settled"
  | BroadcastSettles nat "unit settled"
  | AddJob Address
  | RemoveJob Address
  | AddNetwork int
  | RemoveNetwork
  | NumNetworksSettles nat "int settled"
  | NetworkAtSettles nat "bytes32 settled"

text \<open>A new block goes to every subscription, in the order they were made.\<close>

fun turn_flashbots :: "turn \<Rightarrow> script \<Rightarrow> script" where
  "turn_flashbots (NewBlock n) st =
     foldl (\<lambda>s k. blockHandler_flashbots k n s) st [0..<length (subscriptions st)]"
| "turn_flashbots (TimerFires k) st = timer_callback k st"
| "turn_flashbots (GetBlockSettles k r) st = run_flashbots_getBlock k r st"
| "turn_flashbots (WorkableSettles i r) st = tryToWorkJob_workable i r st"
| "turn_flashbots (NonceSettles i r gas) st = tryToWorkJob_nonce i r gas st"
| "turn_flashbots (PopulateSettles i r bundles) st = tryToWorkJob_populated i r bundles st"
| "turn_flashbots (SendSettles i r) st = tryToWorkJob_sent i r st"
| "turn_flashbots (BroadcastSettles i r) st = st"
| "turn_flashbots (AddJob a) st = AddJob_handler a st"
| "turn_flashbots (RemoveJob a) st = RemoveJob_handler a st"
| "turn_flashbots (AddNetwork w) st = AddNetwork_handler w st"
| "turn_flashbots RemoveNetwork st = RemoveNetwork_handler st"
| "turn_flashbots (NumNetworksSettles k r) st = fetchAndUpdateNetworksData_numNetworks k r st"
| "turn_flashbots (NetworkAtSettles k r) st = fetchAndUpdateNetworksData_networkAt k r st"

fun turn_broadcast :: "turn \<Rightarrow> script \<Rightarrow> script" where
  "turn_broadcast (NewBlock n) st =
     foldl (\<lambda>s k. blockHandler_broadcast k n s) st [0..<length (subscriptions st)]"
| "turn_broadcast (WorkableSettles i r) st = jobWork_broadcast_workable i r st"
| "turn_broadcast (BroadcastSettles i r) st = jobWork_broadcast_done i r st"
| "turn_broadcast (AddJob a) st = AddJob_handler a st"
| "turn_broadcast (RemoveJob a) st = RemoveJob_handler a st"
| "turn_broadcast (AddNetwork w) st = AddNetwork_handler w st"
| "turn_broadcast RemoveNetwork st = RemoveNetwork_handler st"
| "turn_broadcast (NumNetworksSettles k r) st = fetchAndUpdateNetworksData_numNetworks k r st"
| "turn_broadcast (NetworkAtSettles k r) st = fetchAndUpdateNetworksData_networkAt k r st"
| "turn_broadcast t st = st"

definition turns_flashbots :: "turn list \<Rightarrow> script \<Rightarrow> script" where
  "turns_flashbots ts st = foldl (\<lambda>s t. turn_flashbots t s) st ts"

definition turns_broadcast :: "turn list \<Rightarrow> script \<Rightarrow> script" where
  "turns_broadcast ts st = foldl (\<lambda>s t. turn_broadcast t s) st ts"

subsection \<open>Invariants\<close>

text \<open>Every value stored in \<^verbatim>\<open>jobs\<close> is \<^verbatim>\<open>undefined\<close>.\<close>

definition jobs_undefined :: "script \<Rightarrow> bool" where
  "jobs_undefined st \<longleftrightarrow> (\<forall>v \<in> snd ` set (jobs st). v = None)"

text \<open>
  The stages inside the \<^verbatim>\<open>try\<close> block of \<^verbatim>\<open>tryToWorkJob\<close>, and the invariant that a flag
  which is set belongs to an activation that stands inside its \<^verbatim>\<open>try\<close> block.
\<close>

fun in_try :: "stage \<Rightarrow> bool" where
  "in_try (AwaitNonce args) = True"
| "in_try (AwaitPopulate args) = True"
| "in_try AwaitSend = True"
| "in_try s = False"

definition flags_owned :: "script \<Rightarrow> bool" where
  "flags_owned st \<longleftrightarrow>
     (\<forall>job. jobWorkInProgress st job = Some True \<longrightarrow>
        (\<exists>k < length (attempts st).
           attempt_job (attempts st ! k) = job \<and> in_try (attempt_stage (attempts st ! k))))"

text \<open>
  What an activation of \<^verbatim>\<open>fetchAndUpdateNetworksData\<close> may write: \<^verbatim>\<open>networksAmount\<close>,
  \<^verbatim>\<open>keep3rSequencerPosition\<close> and its own stage, and nothing else.
\<close>

definition networks_only :: "script \<Rightarrow> script \<Rightarrow> bool" where
  "networks_only st st' \<longleftrightarrow>
     jobWorkInProgress st' = jobWorkInProgress st \<and> blocksInWindow st' = blocksInWindow st
     \<and> jobs st' = jobs st \<and> attempts st' = attempts st \<and> runs st' = runs st
     \<and> timers st' = timers st \<and> subscriptions st' = subscriptions st
     \<and> calls st' = calls st"

text \<open>
  A script that has stopped scheduling: nothing is pending that could compute a window or
  start an attempt.
\<close>

definition halted :: "script \<Rightarrow> bool" where
  "halted st \<longleftrightarrow>
     attempts st = [] \<and> timers st = [] \<and> subscriptions st = []
     \<and> AwaitGetBlock \<notin> set (runs st)"

subsection \<open>An example chain state\<close>

text \<open>
  A sequencer with window size 13, two jobs, and three networks of which the keeper's is the
  second; and one whose whitelist does not hold the keeper's tag.
\<close>

definition example_sequencer :: sequencer where
  "example_sequencer =
     \<lparr>totalWindowSize = Fulfilled 13,
      numJobs = Fulfilled 2,
      jobAt = (\<lambda>i. if i = 0 then Fulfilled ''0xJobA'' else if i = 1 then Fulfilled ''0xJobB''
                   else Rejected ''revert''),
      numNetworks = Fulfilled 3,
      networkAt = (\<lambda>i. if i = 1 then Fulfilled KEEP3R_NETWORK_TAG
                       else if i = 0 \<or> i = 2 then Fulfilled ''0x4f54484552''
                       else Rejected ''revert'')\<rparr>"

definition example_sequencer_unlisted :: sequencer where
  "example_sequencer_unlisted =
     example_sequencer
       \<lparr>numNetworks := Fulfilled 1,
        networkAt := (\<lambda>i. if i = 0 then Fulfilled ''0x4f54484552'' else Rejected ''revert'')\<rparr>"

text \<open>A sequencer whose whitelist of three networks holds the keeper's tag last.\<close>

definition example_sequencer_last :: sequencer where
  "example_sequencer_last =
     example_sequencer
       \<lparr>networkAt := (\<lambda>i. if i = 2 then Fulfilled KEEP3R_NETWORK_TAG
                         else if i = 0 \<or> i = 1 then Fulfilled ''0x4f54484552''
                         else Rejected ''revert'')\<rparr>"

text \<open>
  A sequencer whose whitelist holds 20000 networks, the keeper's the first: a full window of
  260000 blocks.
\<close>

definition example_sequencer_wide :: sequencer where
  "example_sequencer_wide =
     example_sequencer
       \<lparr>numNetworks := Fulfilled 20000,
        networkAt := (\<lambda>i. if i = 0 then Fulfilled KEEP3R_NETWORK_TAG
                         else Fulfilled ''0x4f54484552'')\<rparr>"

text \<open>
  The Flashbots script on \<open>example_sequencer\<close> once it listens to blocks: the latest block
  was 100, so the window of position 1 is \<open>[130, 143)\<close>, and the timer has fired.
\<close>

definition example_listening :: script where
  "example_listening =
     initial\<lparr>blocksInWindow := 13, networksAmount := 3, keep3rSequencerPosition := 1,
             jobs := [(''0xJobA'', None), (''0xJobB'', None)],
             runs := [RunReturned],
             timers := [\<lparr>timer_time = num 300000, timer_delay = 300000,
                         timer_windowStart = num 130, timer_windowEnd = num 143,
                         timer_pending = False\<rparr>],
             subscriptions := [\<lparr>sub_windowStart = num 130, sub_windowEnd = num 143,
                                sub_active = True\<rparr>],
             scans := [ScanReturned],
             calls := [GetBlock]\<rparr>"

section \<open>Arithmetic of doubles\<close>

lemma two_powi_pos: "(0::rat) < 2 powi k"
  by (simp add: power_int_def)

lemma exponent_bounds:
  assumes "x \<noteq> 0"
  shows "2 powi (exponent x) \<le> \<bar>x\<bar> \<and> \<bar>x\<bar> < 2 powi (exponent x + 1)"
proof -
  obtain p q where pq: "quotient_of \<bar>x\<bar> = (p, q)" by (cases "quotient_of \<bar>x\<bar>")
  then have q: "0 < q" and x: "\<bar>x\<bar> = of_int p / of_int q"
    by (auto dest: quotient_of_denom_pos quotient_of_div)
  have "0 < \<bar>x\<bar>" using assms by simp
  with x q have p: "0 < p" by (simp add: zero_less_divide_iff)
  define k where "k = bitlen p - bitlen q"
  from bitlen_bounds [OF p] have pb: "2 ^ nat (bitlen p - 1) \<le> p" "p < 2 ^ nat (bitlen p)" by auto
  from bitlen_bounds [OF q] have qb: "2 ^ nat (bitlen q - 1) \<le> q" "q < 2 ^ nat (bitlen q)" by auto
  have bp: "1 \<le> bitlen p" and bq: "1 \<le> bitlen q"
    using p q by (auto simp: bitlen_def floorlog_def)
  have pw: "(2::rat) powi b = of_int (2 ^ nat b)" if "0 \<le> b" for b
    using that by (simp add: power_int_def)
  have P1: "(2::rat) powi (bitlen p - 1) \<le> of_int p"
    unfolding pw [of "bitlen p - 1", OF diff_ge_0_iff_ge [THEN iffD2, OF bp]]
    using pb(1) by (simp only: of_int_le_iff)
  have P2: "of_int p < (2::rat) powi (bitlen p)"
    unfolding pw [of "bitlen p", OF order_trans [OF zero_le_one bp]]
    using pb(2) by (simp only: of_int_less_iff)
  have Q1: "(2::rat) powi (bitlen q - 1) \<le> of_int q"
    unfolding pw [of "bitlen q - 1", OF diff_ge_0_iff_ge [THEN iffD2, OF bq]]
    using qb(1) by (simp only: of_int_le_iff)
  have Q2: "of_int q < (2::rat) powi (bitlen q)"
    unfolding pw [of "bitlen q", OF order_trans [OF zero_le_one bq]]
    using qb(2) by (simp only: of_int_less_iff)
  have qpos: "(0::rat) < of_int q" using q by simp
  have upper: "\<bar>x\<bar> < 2 powi (k + 1)"
  proof -
    have "of_int p < (2::rat) powi (k + 1) * 2 powi (bitlen q - 1)"
      using P2 by (simp add: k_def flip: power_int_add)
    also have "\<dots> \<le> 2 powi (k + 1) * of_int q"
      using Q1 two_powi_pos [of "k + 1"] by (simp add: mult_left_mono)
    finally show ?thesis using qpos by (simp add: x pos_divide_less_eq)
  qed
  have lower: "2 powi (k - 1) \<le> \<bar>x\<bar>"
  proof -
    have "(2::rat) powi (k - 1) * of_int q \<le> 2 powi (k - 1) * 2 powi (bitlen q)"
      using Q2 two_powi_pos [of "k - 1"] by (simp add: mult_left_mono)
    also have "\<dots> = 2 powi (bitlen p - 1)"
      by (simp add: k_def flip: power_int_add)
    also have "\<dots> \<le> of_int p" by (rule P1)
    finally show ?thesis using qpos by (simp add: x pos_le_divide_eq)
  qed
  have e: "exponent x = (if 2 powi k \<le> \<bar>x\<bar> then k else k - 1)"
    by (simp add: exponent_def pq k_def Let_def)
  show ?thesis
  proof (cases "2 powi k \<le> \<bar>x\<bar>")
    case True
    with e upper show ?thesis by simp
  next
    case False
    with e lower show ?thesis by simp
  qed
qed


lemma two_powi_less_exp:
  assumes "(2::rat) powi a < 2 powi b"
  shows "a < b"
proof (rule ccontr)
  assume "\<not> a < b"
  then have "b \<le> a" by simp
  then have "(2::rat) powi b \<le> 2 powi a" by (intro power_int_increasing) simp_all
  with assms show False by simp
qed

lemma exponent_eqI:
  assumes "2 powi e \<le> \<bar>x\<bar>" and "\<bar>x\<bar> < 2 powi (e + 1)"
  shows "exponent x = e"
proof -
  have "0 < \<bar>x\<bar>" using two_powi_pos [of e] assms(1) by linarith
  then have "x \<noteq> 0" by simp
  from exponent_bounds [OF this]
  have lo: "2 powi (exponent x) \<le> \<bar>x\<bar>" and hi: "\<bar>x\<bar> < 2 powi (exponent x + 1)" by simp_all
  have "(2::rat) powi e < 2 powi (exponent x + 1)" using assms(1) hi by linarith
  then have 1: "e < exponent x + 1" by (rule two_powi_less_exp)
  have "(2::rat) powi (exponent x) < 2 powi (e + 1)" using lo assms(2) by linarith
  then have 2: "exponent x < e + 1" by (rule two_powi_less_exp)
  from 1 2 show ?thesis by simp
qed

lemma round_half_even_of_int [simp]: "round_half_even (of_int n) = n"
  by (simp add: round_half_even_def)

lemma round_half_even_error: "\<bar>of_int (round_half_even y) - y\<bar> \<le> 1 / 2"
proof -
  define f where "f = \<lfloor>y\<rfloor>"
  define d where "d = y - of_int f"
  have d: "0 \<le> d" "d < 1" unfolding d_def f_def by linarith+
  have y: "y = of_int f + d" by (simp add: d_def)
  have r: "round_half_even y
      = (if d < 1 / 2 then f else if 1 / 2 < d then f + 1 else if even f then f else f + 1)"
    by (simp add: round_half_even_def Let_def f_def d_def)
  have "round_half_even y = f \<and> d \<le> 1 / 2 \<or> round_half_even y = f + 1 \<and> 1 / 2 \<le> d"
    unfolding r by (cases "d < 1 / 2"; cases "1 / 2 < d") simp_all
  then show ?thesis
  proof
    assume a: "round_half_even y = f \<and> d \<le> 1 / 2"
    then have "of_int (round_half_even y) - y = - d" by (simp add: d_def)
    with a d show ?thesis by simp
  next
    assume a: "round_half_even y = f + 1 \<and> 1 / 2 \<le> d"
    then have "of_int (round_half_even y) - y = 1 - d" by (simp add: d_def)
    with a d show ?thesis by simp
  qed
qed

text \<open>An integer of magnitude at most \<open>2^53\<close> is a double.\<close>

lemma round_double_of_int:
  assumes "\<bar>n\<bar> \<le> 2 ^ 53"
  shows "round_double (of_int n) = Finite (of_int n)"
proof (cases "n = 0")
  case True
  then show ?thesis by (simp add: round_double_def)
next
  case False
  define x :: rat where "x = of_int n"
  define e where "e = exponent x"
  have x0: "x \<noteq> 0" using False by (simp add: x_def)
  have ax: "\<bar>x\<bar> = of_int \<bar>n\<bar>" by (simp add: x_def)
  from exponent_bounds [OF x0]
  have lo: "2 powi e \<le> \<bar>x\<bar>" and hi: "\<bar>x\<bar> < 2 powi (e + 1)" by (simp_all add: e_def)
  have "1 \<le> \<bar>n\<bar>" using False by simp
  then have "(of_int 1 :: rat) \<le> of_int \<bar>n\<bar>" by (simp only: of_int_le_iff)
  then have one: "1 \<le> \<bar>x\<bar>" by (simp add: ax)
  have "(of_int \<bar>n\<bar> :: rat) \<le> of_int (2 ^ 53)" using assms by (simp only: of_int_le_iff)
  then have top: "\<bar>x\<bar> \<le> 2 ^ 53" by (simp add: ax)
  have "(2::rat) powi 0 < 2 powi (e + 1)" using one hi by simp
  then have e0: "0 \<le> e" using two_powi_less_exp [of 0 "e + 1"] by simp
  have "(2::rat) powi e < 2 powi 54" using lo top by simp
  then have e53: "e \<le> 53" using two_powi_less_exp [of e 54] by simp
  have "\<exists>j. x / 2 powi (e - 52) = of_int j"
  proof (cases "e = 53")
    case True
    with lo top have "\<bar>x\<bar> = 2 ^ 53" by simp
    then have "x = 2 ^ 53 \<or> x = - (2 ^ 53)" by (simp add: abs_if split: if_splits)
    then show ?thesis
    proof
      assume "x = 2 ^ 53"
      then have "x / 2 powi (e - 52) = of_int (2 ^ 52)" using True by simp
      then show ?thesis by blast
    next
      assume "x = - (2 ^ 53)"
      then have "x / 2 powi (e - 52) = of_int (- (2 ^ 52))" using True by simp
      then show ?thesis by blast
    qed
  next
    case False
    with e53 have le: "e \<le> 52" by simp
    have "x / 2 powi (e - 52) = x * 2 powi (52 - e)"
      by (simp add: power_int_diff field_simps)
    also have "\<dots> = of_int n * of_int (2 ^ nat (52 - e))"
      using le by (simp add: x_def power_int_def)
    also have "\<dots> = of_int (n * 2 ^ nat (52 - e))" by simp
    finally show ?thesis by blast
  qed
  then obtain j where j: "x / 2 powi (e - 52) = of_int j" by blast
  have ulp: "max e (- 1022) - 52 = e - 52" using e0 by simp
  have undo: "of_int j * 2 powi (e - 52) = x"
    using j by (simp add: field_simps)
  have small: "\<not> 2 ^ 1024 \<le> x" "\<not> x \<le> - (2 ^ 1024)"
    using top by (simp_all add: abs_le_iff)
  show ?thesis
    using x0 small
    by (simp add: round_double_def Let_def e_def [symmetric] ulp j undo x_def [symmetric])
qed


text \<open>In the normal range the rounding error is at most \<open>2^-53\<close> of the value.\<close>

lemma round_double_error:
  assumes "2 powi (- 1022) \<le> \<bar>x\<bar>" and "\<bar>x\<bar> \<le> 2 ^ 53"
  obtains r where "round_double x = Finite r" and "\<bar>r - x\<bar> \<le> \<bar>x\<bar> / 2 ^ 53"
proof -
  have "0 < \<bar>x\<bar>" using two_powi_pos [of "- 1022"] assms(1) by linarith
  then have x0: "x \<noteq> 0" by simp
  define e where "e = exponent x"
  from exponent_bounds [OF x0]
  have lo: "2 powi e \<le> \<bar>x\<bar>" and hi: "\<bar>x\<bar> < 2 powi (e + 1)" by (simp_all add: e_def)
  have "(2::rat) powi (- 1022) < 2 powi (e + 1)" using assms(1) hi by linarith
  then have "- 1022 < e + 1" by (rule two_powi_less_exp)
  then have ulp: "max e (- 1022) - 52 = e - 52" by simp
  define u :: rat where "u = 2 powi (e - 52)"
  define r where "r = of_int (round_half_even (x / u)) * u"
  have u: "0 < u" unfolding u_def by (rule two_powi_pos)
  have "\<bar>of_int (round_half_even (x / u)) - x / u\<bar> * u \<le> 1 / 2 * u"
    using round_half_even_error [of "x / u"] u by (intro mult_right_mono) simp_all
  moreover have "\<bar>of_int (round_half_even (x / u)) - x / u\<bar> * u = \<bar>r - x\<bar>"
  proof -
    have "r - x = (of_int (round_half_even (x / u)) - x / u) * u"
      using u by (simp add: r_def field_simps)
    then show ?thesis using u by (simp add: abs_mult)
  qed
  ultimately have err: "\<bar>r - x\<bar> \<le> u / 2" by simp
  have "u / 2 = 2 powi e / 2 ^ 53"
  proof -
    have "(2::rat) powi (e - 52) = 2 powi e / 2 powi 52"
      by (simp add: power_int_diff)
    then show ?thesis by (simp add: u_def)
  qed
  also have "\<dots> \<le> \<bar>x\<bar> / 2 ^ 53" using lo by (simp add: divide_right_mono)
  finally have half: "u / 2 \<le> \<bar>x\<bar> / 2 ^ 53" .
  with err have bound: "\<bar>r - x\<bar> \<le> \<bar>x\<bar> / 2 ^ 53" by linarith
  have "\<bar>x\<bar> / 2 ^ 53 \<le> 1" using assms(2) by simp
  with bound have "\<bar>r - x\<bar> \<le> 1" by linarith
  then have "\<bar>r\<bar> \<le> 2 ^ 53 + 1" using assms(2) by linarith
  then have small: "\<not> 2 ^ 1024 \<le> r" "\<not> r \<le> - (2 ^ 1024)"
    by (simp_all add: abs_le_iff)
  have "round_double x = Finite r"
    using x0 small
    by (simp add: round_double_def Let_def e_def [symmetric] ulp u_def [symmetric]
        r_def [symmetric])
  then show thesis using bound by (rule that)
qed

text \<open>
  \<^verbatim>\<open>Math.ceil(a / f)\<close> for integers with \<open>|a| < 2^53\<close> and \<open>0 < f \<le> 2^53\<close> is the ceiling of
  the exact quotient: the quotient is further than its rounding error from every integer
  it does not equal.
\<close>

lemma ceil_quotient_exact:
  fixes a f :: int
  assumes "0 < f" and "f \<le> 2 ^ 53" and "\<bar>a\<bar> < 2 ^ 53"
  shows "js_ceil (round_double (of_int a / of_int f)) = Finite (of_int (- ((- a) div f)))"
proof (cases "a = 0")
  case True
  then show ?thesis by (simp add: round_double_def)
next
  case False
  define x :: rat where "x = of_int a / of_int f"
  define t where "t = - ((- a) div f)"
  have t: "\<lceil>x\<rceil> = t" unfolding x_def t_def by (rule ceiling_divide_eq_div)
  have fpos: "(0::rat) < of_int f" using assms(1) by simp
  have f53: "(of_int f :: rat) \<le> 2 ^ 53"
  proof -
    have "(of_int f :: rat) \<le> of_int (2 ^ 53)" using assms(2) by (simp only: of_int_le_iff)
    then show ?thesis by simp
  qed
  have a53: "(of_int \<bar>a\<bar> :: rat) < 2 ^ 53"
  proof -
    have "(of_int \<bar>a\<bar> :: rat) < of_int (2 ^ 53)" using assms(3) by (simp only: of_int_less_iff)
    then show ?thesis by simp
  qed
  have a1: "(1::rat) \<le> of_int \<bar>a\<bar>"
  proof -
    have "1 \<le> \<bar>a\<bar>" using False by simp
    then have "(of_int 1 :: rat) \<le> of_int \<bar>a\<bar>" by (simp only: of_int_le_iff)
    then show ?thesis by simp
  qed
  have ax: "\<bar>x\<bar> = of_int \<bar>a\<bar> / of_int f" using fpos by (simp add: x_def abs_divide)
  have unit: "1 / of_int f \<le> \<bar>x\<bar>" unfolding ax using a1 fpos by (simp add: divide_right_mono)
  have "(2::rat) powi (- 53) \<le> 1 / of_int f"
  proof -
    have "1 / (2::rat) ^ 53 \<le> 1 / of_int f" using f53 fpos by (intro divide_left_mono) simp_all
    then show ?thesis by (simp add: power_int_minus_divide)
  qed
  moreover have "(2::rat) powi (- 1022) \<le> 2 powi (- 53)"
    by (intro power_int_increasing) simp_all
  ultimately have normal: "2 powi (- 1022) \<le> \<bar>x\<bar>" using unit by linarith
  have "\<bar>x\<bar> \<le> of_int \<bar>a\<bar>"
  proof -
    have "(1::rat) \<le> of_int f" using assms(1) by (metis int_one_le_iff_zero_less of_int_1 of_int_le_iff)
    then have "of_int \<bar>a\<bar> / of_int f \<le> (of_int \<bar>a\<bar> :: rat) / 1"
      using a1 by (intro divide_left_mono) simp_all
    then show ?thesis by (simp add: ax)
  qed
  with a53 have top: "\<bar>x\<bar> \<le> 2 ^ 53" by linarith
  from round_double_error [OF normal top] obtain r
    where r: "round_double x = Finite r" and err: "\<bar>r - x\<bar> \<le> \<bar>x\<bar> / 2 ^ 53" by blast
  have delta: "\<bar>x\<bar> / 2 ^ 53 < 1 / of_int f"
  proof -
    have "\<bar>x\<bar> / 2 ^ 53 = (of_int \<bar>a\<bar> / 2 ^ 53) / of_int f" by (simp add: ax)
    also have "\<dots> < 1 / of_int f"
      using a53 fpos by (intro divide_strict_right_mono) simp_all
    finally show ?thesis .
  qed
  have gap: "1 / of_int f \<le> \<bar>of_int k - x\<bar>" if "of_int k \<noteq> x" for k :: int
  proof -
    have "of_int k - x = of_int (k * f - a) / of_int f"
      using fpos by (simp add: x_def field_simps)
    moreover have "k * f - a \<noteq> 0"
    proof
      assume "k * f - a = 0"
      then have "a = k * f" by simp
      then have "x = of_int k" using fpos by (simp add: x_def)
      with that show False by simp
    qed
    then have "1 \<le> \<bar>k * f - a\<bar>" by simp
    then have "(of_int 1 :: rat) \<le> of_int \<bar>k * f - a\<bar>" by (simp only: of_int_le_iff)
    then have "(1::rat) \<le> \<bar>of_int (k * f - a)\<bar>" by simp
    ultimately show ?thesis using fpos by (simp add: abs_divide divide_right_mono)
  qed
  have "\<lceil>r\<rceil> = t"
  proof (cases "x = of_int t")
    case True
    have "\<bar>t\<bar> \<le> 2 ^ 53"
    proof -
      have "(of_int \<bar>t\<bar> :: rat) = \<bar>x\<bar>" using True by simp
      also have "\<dots> \<le> 2 ^ 53" by (rule top)
      finally have "(of_int \<bar>t\<bar> :: rat) \<le> of_int (2 ^ 53)" by simp
      then show ?thesis by (simp only: of_int_le_iff)
    qed
    from round_double_of_int [OF this] r True have "r = of_int t" by simp
    then show ?thesis by simp
  next
    case False
    have lower: "of_int t - 1 < x" and upper: "x \<le> of_int t"
      using t by (auto simp: ceiling_eq_iff dest: sym)
    from gap [of t] False have "1 / of_int f \<le> \<bar>of_int t - x\<bar>" by simp
    with upper have g1: "1 / of_int f \<le> of_int t - x" by simp
    have "of_int (t - 1) \<noteq> x"
    proof
      assume "of_int (t - 1) = x"
      with lower show False by simp
    qed
    from gap [OF this] lower have g2: "1 / of_int f \<le> x - (of_int t - 1)" by simp
    from err delta have "\<bar>r - x\<bar> < 1 / of_int f" by linarith
    with g1 g2 have "of_int t - 1 < r \<and> r \<le> of_int t" by (simp add: abs_less_iff)
    then show ?thesis by (simp add: ceiling_eq_iff)
  qed
  with r show ?thesis by (simp add: x_def t_def)
qed


lemma num_eq_iff [simp]: "num a = num b \<longleftrightarrow> a = b"
  by (simp add: num_def)

lemma js_mul_num:
  assumes "\<bar>a * b\<bar> \<le> 2 ^ 53"
  shows "js_mul (num a) (num b) = num (a * b)"
  using round_double_of_int [OF assms] by (simp add: num_def)

lemma js_add_num:
  assumes "\<bar>a + b\<bar> \<le> 2 ^ 53"
  shows "js_add (num a) (num b) = num (a + b)"
  using round_double_of_int [OF assms] by (simp add: num_def)

lemma js_sub_num:
  assumes "\<bar>a - b\<bar> \<le> 2 ^ 53"
  shows "js_sub (num a) (num b) = num (a - b)"
  using round_double_of_int [OF assms] by (simp add: num_def js_sub_def)

lemma js_less_num [simp]: "js_less (num a) (num b) \<longleftrightarrow> a < b"
  by (simp add: num_def)

lemma js_greater_eq_num [simp]: "js_greater_eq (num a) (num b) \<longleftrightarrow> b \<le> a"
  by (simp add: num_def)

lemma setTimeout_delay_num:
  "setTimeout_delay (num t) = (if 1 \<le> t \<and> t \<le> 2147483647 then t else 1)"
  by (simp add: num_def)

lemma calculateNextMasterWindow_exact:
  fixes b w n p :: int
  assumes "0 < w * n" and "w * n \<le> 2 ^ 53" and "\<bar>p * w\<bar> \<le> 2 ^ 53"
    and "\<bar>b - p * w\<bar> < 2 ^ 53"
    and "\<bar>w * n * (- ((- (b - p * w)) div (w * n)))\<bar> \<le> 2 ^ 53"
    and "\<bar>w * n * (- ((- (b - p * w)) div (w * n))) + p * w\<bar> \<le> 2 ^ 53"
  shows "calculateNextMasterWindow (num b) (num w) (num n) (num p)
     = num (w * n * (- ((- (b - p * w)) div (w * n))) + p * w)"
proof -
  define t where "t = - ((- (b - p * w)) div (w * n))"
  have full: "js_mul (num w) (num n) = num (w * n)"
    using assms(1,2) by (intro js_mul_num) simp
  have off: "js_mul (num p) (num w) = num (p * w)"
    using assms(3) by (rule js_mul_num)
  have diff: "js_sub (num b) (num (p * w)) = num (b - p * w)"
    using assms(4) by (intro js_sub_num) simp
  have "w * n \<noteq> 0" using assms(1) by linarith
  then have nz: "(of_int (w * n) :: rat) \<noteq> 0" by (simp only: of_int_eq_0_iff not_False_eq_True)
  have "js_div (num (b - p * w)) (num (w * n))
      = round_double (of_int (b - p * w) / of_int (w * n))"
    by (simp only: num_def js_div.simps nz if_False)
  then have quot: "js_ceil (js_div (num (b - p * w)) (num (w * n))) = num t"
    by (simp only: ceil_quotient_exact [OF assms(1,2,4)] t_def num_def)
  have prod: "js_mul (num (w * n)) (num t) = num (w * n * t)"
    using assms(5) unfolding t_def [symmetric] by (rule js_mul_num)
  have sum: "js_add (num (w * n * t)) (num (p * w)) = num (w * n * t + p * w)"
    using assms(6) unfolding t_def [symmetric] by (rule js_add_num)
  show ?thesis
    unfolding calculateNextMasterWindow_def Let_def full off diff quot prod sum
    by (simp only: t_def)
qed

lemma calculateNextMainWindow_eq: "calculateNextMainWindow = calculateNextMasterWindow"
  by (intro ext) (simp only: calculateNextMainWindow_def calculateNextMasterWindow_def)

subsection \<open>Evaluating a rounding\<close>

lemma round_half_even_nearest:
  assumes "\<bar>of_int m - y\<bar> < 1 / 2"
  shows "round_half_even y = m"
proof -
  have "\<bar>of_int (round_half_even y) - y\<bar> \<le> 1 / 2" by (rule round_half_even_error)
  with assms have "\<bar>(of_int (round_half_even y) :: rat) - of_int m\<bar> < 1" by linarith
  then have "\<bar>(of_int (round_half_even y - m) :: rat)\<bar> < of_int 1" by simp
  then have "\<bar>round_half_even y - m\<bar> < 1"
    by (simp only: of_int_abs [symmetric] of_int_less_iff)
  then show ?thesis by simp
qed

lemma round_half_even_tie:
  assumes "y = of_int m + 1 / 2 \<or> y = of_int m - 1 / 2" and "even m"
  shows "round_half_even y = m"
  using assms(1)
proof
  assume y: "y = of_int m + 1 / 2"
  have "\<lfloor>y\<rfloor> = m" unfolding y by (simp add: floor_unique)
  then show ?thesis using assms(2) by (simp add: round_half_even_def Let_def y)
next
  assume y: "y = of_int m - 1 / 2"
  have f: "\<lfloor>y\<rfloor> = m - 1" unfolding y by (intro floor_unique) simp_all
  have "odd (m - 1)" using assms(2) by simp
  then show ?thesis by (simp add: round_half_even_def Let_def f) (simp add: y)
qed

lemma round_double_eval:
  assumes "2 powi e \<le> \<bar>x\<bar>" and "\<bar>x\<bar> < 2 powi (e + 1)" and "- 1022 \<le> e"
    and "round_half_even (x / 2 powi (e - 52)) = m"
    and "\<bar>of_int m * 2 powi (e - 52)\<bar> < (2::rat) ^ 1024"
  shows "round_double x = Finite (of_int m * 2 powi (e - 52))"
proof -
  have e: "exponent x = e" using assms(1,2) by (rule exponent_eqI)
  have "0 < \<bar>x\<bar>" using two_powi_pos [of e] assms(1) by linarith
  then have x0: "x \<noteq> 0" by simp
  have ulp: "max e (- 1022) - 52 = e - 52" using assms(3) by simp
  have small: "\<not> 2 ^ 1024 \<le> of_int m * (2::rat) powi (e - 52)"
    "\<not> of_int m * (2::rat) powi (e - 52) \<le> - (2 ^ 1024)"
    using assms(5) by linarith+
  show ?thesis
    using x0 small by (simp add: round_double_def Let_def e ulp assms(4))
qed

lemma quotient_rounded:
  "round_double (9007199254740965 / 65) = Finite (8868626958514181 / 64)"
proof -
  have "round_half_even (9007199254740965 / 65 / 2 powi (46 - 52)) = 8868626958514181"
    by (rule round_half_even_nearest) simp
  from round_double_eval [of 46 "9007199254740965 / 65" 8868626958514181, OF _ _ _ this]
  show ?thesis by simp
qed

lemma product_rounded: "round_double 9007199254741025 = Finite 9007199254741024"
proof -
  have "round_half_even (9007199254741025 / 2 powi (53 - 52)) = 4503599627370512"
    by (rule round_half_even_tie) simp_all
  from round_double_eval [of 53 9007199254741025 4503599627370512, OF _ _ _ this]
  show ?thesis by simp
qed

lemma sum_rounded: "round_double 9007199254741050 = Finite 9007199254741050"
proof -
  have "round_half_even (9007199254741050 / 2 powi (53 - 52)) = 4503599627370525"
    by (rule round_half_even_nearest) simp
  from round_double_eval [of 53 9007199254741050 4503599627370525, OF _ _ _ this]
  show ?thesis by simp
qed

section \<open>Window arithmetic\<close>

lemma ceil_cycle_lower:
  fixes f d :: int
  assumes "0 < f"
  shows "d \<le> f * (- ((- d) div f))"
proof -
  have "f * ((- d) div f) + (- d) mod f = - d"
    by (rule mult_div_mod_eq)
  moreover have "0 \<le> (- d) mod f"
    using assms by (rule pos_mod_sign)
  ultimately have "f * ((- d) div f) \<le> - d" by linarith
  then show ?thesis by simp
qed

lemma ceil_cycle_upper:
  fixes f d :: int
  assumes "0 < f"
  shows "f * (- ((- d) div f)) < d + f"
proof -
  have "f * ((- d) div f) + (- d) mod f = - d"
    by (rule mult_div_mod_eq)
  moreover have "(- d) mod f < f"
    using assms by (rule pos_mod_bound)
  ultimately have "- d - f < f * ((- d) div f)" by linarith
  then show ?thesis by simp
qed

lemma ceil_cycle_least:
  fixes f d k :: int
  assumes "0 < f" and "d \<le> f * k"
  shows "- ((- d) div f) \<le> k"
proof -
  have "f * (- k) \<le> - d" using assms(2) by simp
  then have "(f * (- k)) div f \<le> (- d) div f"
    using assms(1) by (rule zdiv_mono1)
  moreover have "(f * (- k)) div f = - k"
    using assms(1) by (intro nonzero_mult_div_cancel_left) simp
  ultimately show ?thesis by linarith
qed

lemma same_residue_multiple:
  fixes a b f :: int
  assumes "a mod f = b mod f"
  obtains k where "a = b + f * k"
proof -
  have "(a - b) mod f = 0"
    using assms by (simp add: mod_eq_dvd_iff mod_0_imp_dvd dvd_eq_mod_eq_0)
  then obtain k where "a - b = f * k" by (auto simp: mod_eq_0_iff_dvd)
  then have "a = b + f * k" by simp
  then show thesis by (rule that)
qed

text \<open>
  Inside the range of the exact integers the function computes with integers: the result
  is \<open>fullWindow * \<lceil>(blockNumber - offset) / fullWindow\<rceil> + offset\<close>.
\<close>

lemma calculateNextMasterWindow_in_range:
  fixes b w n p :: int
  assumes "1 \<le> w" and "1 \<le> n" and "0 \<le> p" and "p < n"
    and "\<bar>b\<bar> + w * n \<le> 2 ^ 53"
  shows "calculateNextMasterWindow (num b) (num w) (num n) (num p)
     = num (w * n * (- ((- (b - p * w)) div (w * n))) + p * w)"
proof -
  define f where "f = w * n"
  define off where "off = p * w"
  define d where "d = b - off"
  define t where "t = - ((- d) div f)"
  have fpos: "0 < f" using assms(1,2) unfolding f_def by (intro mult_pos_pos) simp_all
  have off0: "0 \<le> off" using assms(1,3) unfolding off_def by (intro mult_nonneg_nonneg) simp_all
  have "(p + 1) * w \<le> n * w" using assms(1,4) by (intro mult_right_mono) simp_all
  then have offf: "off + w \<le> f" by (simp add: off_def f_def algebra_simps)
  have range: "\<bar>b\<bar> + f \<le> 2 ^ 53" using assms(5) by (simp add: f_def)
  have lower: "d \<le> f * t" unfolding t_def using fpos by (rule ceil_cycle_lower)
  have upper: "f * t < d + f" unfolding t_def using fpos by (rule ceil_cycle_upper)
  have 1: "f \<le> 2 ^ 53" using range by linarith
  have 2: "\<bar>off\<bar> \<le> 2 ^ 53" using off0 offf assms(1) 1 by linarith
  have 3: "\<bar>d\<bar> < 2 ^ 53" using off0 offf assms(1) range unfolding d_def by linarith
  have 4: "\<bar>f * t\<bar> \<le> 2 ^ 53"
    using lower upper off0 offf assms(1) range unfolding d_def by linarith
  have 5: "\<bar>f * t + off\<bar> \<le> 2 ^ 53"
    using lower upper off0 offf assms(1) range unfolding d_def by linarith
  show ?thesis
    using calculateNextMasterWindow_exact [of w n p b]
      fpos 1 2 3 4 5
    unfolding f_def off_def d_def t_def by blast
qed

text \<open>
  C1, as claimed, fails: the inputs are JavaScript numbers, and next to \<open>2^53\<close> the
  product \<open>fullWindow * timesPassedByActiveNetwork\<close> is rounded. For the block
  \<open>9007199254740991 = 2^53 - 1\<close>, window length 13, whitelist size 5 and position 2 the
  function returns \<open>9007199254741050\<close>, which is 25 modulo 65 where the offset \<open>2 * 13\<close>
  is 26.
\<close>

theorem calculateNextMasterWindow_rounded:
  "calculateNextMasterWindow (num 9007199254740991) (num 13) (num 5) (num 2)
     = num 9007199254741050
   \<and> (9007199254741050 :: int) mod (13 * 5) = 25 \<and> (2 * 13 :: int) mod (13 * 5) = 26"
proof -
  have full: "js_mul (num 13) (num 5) = num 65" using js_mul_num [of 13 5] by simp
  have off: "js_mul (num 2) (num 13) = num 26" using js_mul_num [of 2 13] by simp
  have diff: "js_sub (num 9007199254740991) (num 26) = num 9007199254740965"
    using js_sub_num [of 9007199254740991 26] by simp
  have "js_div (num 9007199254740965) (num 65) = round_double (9007199254740965 / 65)"
    by (simp add: num_def)
  also have "\<dots> = Finite (8868626958514181 / 64)" by (rule quotient_rounded)
  finally have "js_div (num 9007199254740965) (num 65) = Finite (8868626958514181 / 64)" .
  moreover have "\<lceil>8868626958514181 / 64 :: rat\<rceil> = 138572296226785"
    by (rule ceiling_unique) simp_all
  ultimately have quot: "js_ceil (js_div (num 9007199254740965) (num 65)) = num 138572296226785"
    by (simp add: num_def)
  have "js_mul (num 65) (num 138572296226785) = round_double 9007199254741025"
    by (simp add: num_def)
  also have "\<dots> = Finite 9007199254741024" by (rule product_rounded)
  finally have prod: "js_mul (num 65) (num 138572296226785) = num 9007199254741024"
    by (simp add: num_def)
  have "js_add (num 9007199254741024) (num 26) = round_double 9007199254741050"
    by (simp add: num_def)
  also have "\<dots> = Finite 9007199254741050" by (rule sum_rounded)
  finally have sum: "js_add (num 9007199254741024) (num 26) = num 9007199254741050"
    by (simp add: num_def)
  have "calculateNextMasterWindow (num 9007199254740991) (num 13) (num 5) (num 2)
      = num 9007199254741050"
    unfolding calculateNextMasterWindow_def Let_def full off diff quot prod sum ..
  then show ?thesis by simp
qed

text \<open>
  C1, amended. For integers with \<open>windowLength \<ge> 1\<close>, \<open>whitelistSize \<ge> 1\<close>,
  \<open>0 \<le> selfPosition < whitelistSize\<close> and
  \<open>|currentBlock| + windowLength * whitelistSize \<le> 2^53\<close>, \<open>calculateNextMasterWindow\<close> (and
  its copy \<open>calculateNextMainWindow\<close>) returns the smallest block \<open>\<ge> currentBlock\<close> that is
  congruent to \<open>selfPosition * windowLength\<close> modulo \<open>windowLength * whitelistSize\<close>. When
  \<open>currentBlock\<close> is the offset plus a multiple of the full cycle the result is
  \<open>currentBlock\<close> itself, and for window length 13, whitelist size 5, position 2 and block
  100 the result is 156.
\<close>

theorem calculateNextMasterWindow_least_window_start:
  assumes "1 \<le> windowLength" and "1 \<le> whitelistSize"
    and "0 \<le> selfPosition" and "selfPosition < whitelistSize"
    and "\<bar>currentBlock\<bar> + windowLength * whitelistSize \<le> 2 ^ 53"
  shows "\<exists>r. calculateNextMasterWindow (num currentBlock) (num windowLength)
             (num whitelistSize) (num selfPosition) = num r
      \<and> calculateNextMainWindow (num currentBlock) (num windowLength)
             (num whitelistSize) (num selfPosition) = num r
      \<and> currentBlock \<le> r
      \<and> r mod (windowLength * whitelistSize)
          = (selfPosition * windowLength) mod (windowLength * whitelistSize)
      \<and> (\<forall>b. currentBlock \<le> b
             \<and> b mod (windowLength * whitelistSize)
                 = (selfPosition * windowLength) mod (windowLength * whitelistSize)
           \<longrightarrow> r \<le> b)
      \<and> (\<forall>k. currentBlock = selfPosition * windowLength + k * (windowLength * whitelistSize)
           \<longrightarrow> r = currentBlock)
      \<and> calculateNextMasterWindow (num 100) (num 13) (num 5) (num 2) = num 156"
proof -
  define f where "f = windowLength * whitelistSize"
  define off where "off = selfPosition * windowLength"
  define d where "d = currentBlock - off"
  define r where "r = f * (- ((- d) div f)) + off"
  have fpos: "0 < f" using assms(1,2) unfolding f_def by (intro mult_pos_pos) simp_all
  have res: "calculateNextMasterWindow (num currentBlock) (num windowLength)
      (num whitelistSize) (num selfPosition) = num r"
    unfolding r_def d_def off_def f_def using assms by (rule calculateNextMasterWindow_in_range)
  have lower: "currentBlock \<le> r"
    using ceil_cycle_lower [OF fpos, of d] by (simp add: r_def d_def)
  have residue: "r mod f = off mod f"
    unfolding r_def by (simp only: mod_mult_self4)
  have least: "r \<le> b" if "currentBlock \<le> b" and "b mod f = off mod f" for b
  proof -
    from that(2) obtain k where k: "b = off + f * k" by (rule same_residue_multiple)
    have "d \<le> f * k" using that(1) k by (simp add: d_def)
    then have "- ((- d) div f) \<le> k" by (rule ceil_cycle_least [OF fpos])
    then have "f * (- ((- d) div f)) \<le> f * k"
      using fpos by (intro mult_left_mono) simp_all
    then show ?thesis unfolding r_def k by linarith
  qed
  have exact: "r = currentBlock" if "currentBlock = off + k * f" for k
  proof -
    have "currentBlock mod f = off mod f" using that by simp
    then have "r \<le> currentBlock" using least [of currentBlock] by simp
    with lower show ?thesis by simp
  qed
  have example: "calculateNextMasterWindow (num 100) (num 13) (num 5) (num 2) = num 156"
    using calculateNextMasterWindow_in_range [of 13 5 2 100] by simp
  show ?thesis
  proof (intro exI [of _ r] conjI allI impI)
    show "calculateNextMasterWindow (num currentBlock) (num windowLength)
        (num whitelistSize) (num selfPosition) = num r"
      by (rule res)
    show "calculateNextMainWindow (num currentBlock) (num windowLength)
        (num whitelistSize) (num selfPosition) = num r"
      unfolding calculateNextMainWindow_eq by (rule res)
    show "currentBlock \<le> r" by (rule lower)
    show "r mod (windowLength * whitelistSize)
        = (selfPosition * windowLength) mod (windowLength * whitelistSize)"
      using residue unfolding f_def off_def .
    show "calculateNextMasterWindow (num 100) (num 13) (num 5) (num 2) = num 156"
      by (rule example)
  next
    fix b
    assume "currentBlock \<le> b
      \<and> b mod (windowLength * whitelistSize)
          = (selfPosition * windowLength) mod (windowLength * whitelistSize)"
    then show "r \<le> b" using least [of b] unfolding f_def off_def by blast
  next
    fix k
    assume "currentBlock = selfPosition * windowLength + k * (windowLength * whitelistSize)"
    then show "r = currentBlock" using exact [of k] unfolding f_def off_def by blast
  qed
qed

theorem calculateNextMasterWindow_least_window_start_witness:
  "(1::int) \<le> 13 \<and> (1::int) \<le> 5 \<and> (0::int) \<le> 2 \<and> (2::int) < 5
   \<and> \<bar>26 :: int\<bar> + 13 * 5 \<le> 2 ^ 53
   \<and> (\<exists>r. calculateNextMasterWindow (num 26) (num 13) (num 5) (num 2) = num r \<and> 26 \<le> r
          \<and> r mod 65 = 26 \<and> (\<forall>b. 26 \<le> b \<and> b mod 65 = 26 \<longrightarrow> r \<le> b))"
  using calculateNextMasterWindow_least_window_start [of 13 5 2 26] by simp

section \<open>Environment variables\<close>





section \<open>The \<^verbatim>\<open>jobs\<close> object\<close>

subsection \<open>What the stretches leave alone\<close>

lemma jobs_log_call [simp]: "jobs (log_call c st) = jobs st"
  by (simp add: log_call_def)

lemma jobs_set_stage [simp]: "jobs (set_stage i s st) = jobs st"
  by (simp add: set_stage_def)

lemma jobs_unsubscribe [simp]: "jobs (unsubscribe f st) = jobs st"
  by (cases f) simp

lemma jobs_finally_block [simp]: "jobs (finally_block i st) = jobs st"
  by (simp add: finally_block_def)

lemma jobs_catch_block [simp]: "jobs (catch_block i e st) = jobs st"
  by (simp add: catch_block_def)

lemma jobs_tryToWorkJob [simp]: "jobs (tryToWorkJob job block st) = jobs st"
  by (simp add: tryToWorkJob_def)

lemma jobs_tryToWorkJob_workable [simp]: "jobs (tryToWorkJob_workable i r st) = jobs st"
  by (simp add: tryToWorkJob_workable_def split: settled.splits prod.splits)

lemma jobs_tryToWorkJob_nonce [simp]: "jobs (tryToWorkJob_nonce i r gas st) = jobs st"
  by (simp add: tryToWorkJob_nonce_def split: settled.splits stage.splits)

lemma jobs_tryToWorkJob_populated [simp]: "jobs (tryToWorkJob_populated i r b st) = jobs st"
  by (simp add: tryToWorkJob_populated_def split: settled.splits stage.splits)

lemma jobs_tryToWorkJob_sent [simp]: "jobs (tryToWorkJob_sent i r st) = jobs st"
  by (simp add: tryToWorkJob_sent_def split: settled.splits)

lemma jobs_run_flashbots [simp]: "jobs (run_flashbots st) = jobs st"
  by (simp add: run_flashbots_def)

lemma jobs_run_flashbots_getBlock [simp]: "jobs (run_flashbots_getBlock k r st) = jobs st"
  by (simp add: run_flashbots_getBlock_def Let_def split: settled.splits)

lemma jobs_timer_callback [simp]: "jobs (timer_callback k st) = jobs st"
  by (simp add: timer_callback_def)

lemma jobs_foldl_tryToWorkJob [simp]:
  "jobs (foldl (\<lambda>s jobAddress. tryToWorkJob jobAddress n s) st as) = jobs st"
  by (induction as arbitrary: st) simp_all

lemma jobs_blockHandler_flashbots [simp]: "jobs (blockHandler_flashbots k n st) = jobs st"
  by (simp add: blockHandler_flashbots_def)

lemma jobs_foldl_blockHandler_flashbots [simp]:
  "jobs (foldl (\<lambda>s k. blockHandler_flashbots k n s) st ks) = jobs st"
  by (induction ks arbitrary: st) simp_all

lemma jobs_jobWork_broadcast [simp]: "jobs (jobWork_broadcast a n st) = jobs st"
  by (simp add: jobWork_broadcast_def)

lemma jobs_jobWork_broadcast_workable [simp]: "jobs (jobWork_broadcast_workable i r st) = jobs st"
  by (simp add: jobWork_broadcast_workable_def split: settled.splits prod.splits)

lemma jobs_jobWork_broadcast_done [simp]: "jobs (jobWork_broadcast_done i r st) = jobs st"
  by (simp add: jobWork_broadcast_done_def split: settled.splits)

lemma jobs_foldl_jobWork_broadcast [simp]:
  "jobs (foldl (\<lambda>s jobAddress. jobWork_broadcast jobAddress n s) st as) = jobs st"
  by (induction as arbitrary: st) simp_all

lemma jobs_blockHandler_broadcast [simp]: "jobs (blockHandler_broadcast k n st) = jobs st"
  by (simp add: blockHandler_broadcast_def)

lemma jobs_foldl_blockHandler_broadcast [simp]:
  "jobs (foldl (\<lambda>s k. blockHandler_broadcast k n s) st ks) = jobs st"
  by (induction ks arbitrary: st) simp_all

subsection \<open>What an activation of \<^verbatim>\<open>fetchAndUpdateNetworksData\<close> changes\<close>

lemma networks_only_refl [simp]: "networks_only st st"
  by (simp add: networks_only_def)

lemma networks_only_trans:
  assumes "networks_only a b" and "networks_only b c"
  shows "networks_only a c"
  using assms by (simp add: networks_only_def)

lemma networks_only_start: "networks_only st (fetchAndUpdateNetworksData st)"
  by (simp add: networks_only_def fetchAndUpdateNetworksData_def)

lemma networks_only_loop: "networks_only st (networks_loop k i st)"
  by (simp add: networks_only_def networks_loop_def)

lemma networks_only_numNetworks:
  "networks_only st (fetchAndUpdateNetworksData_numNetworks k r st)"
proof (cases "await_toNumber r")
  case (Fulfilled n)
  have "networks_only st (st\<lparr>networksAmount := n\<rparr>)" by (simp add: networks_only_def)
  moreover have "networks_only (st\<lparr>networksAmount := n\<rparr>)
      (networks_loop k 0 (st\<lparr>networksAmount := n\<rparr>))"
    by (rule networks_only_loop)
  ultimately have "networks_only st (networks_loop k 0 (st\<lparr>networksAmount := n\<rparr>))"
    by (rule networks_only_trans)
  with Fulfilled show ?thesis by (simp add: fetchAndUpdateNetworksData_numNetworks_def)
next
  case (Rejected e)
  then show ?thesis by (simp add: fetchAndUpdateNetworksData_numNetworks_def networks_only_def)
qed

lemma networks_only_networkAt:
  "networks_only st (fetchAndUpdateNetworksData_networkAt k r st)"
proof (cases "k < length (scans st)")
  case False
  then show ?thesis by (simp add: fetchAndUpdateNetworksData_networkAt_def)
next
  case True
  show ?thesis
  proof (cases "scans st ! k")
    case (AwaitNetworkAt index)
    show ?thesis
    proof (cases r)
      case (Rejected e)
      with True AwaitNetworkAt show ?thesis
        by (simp add: fetchAndUpdateNetworksData_networkAt_def networks_only_def)
    next
      case (Fulfilled network)
      show ?thesis
      proof (cases "network = KEEP3R_NETWORK_TAG")
        case True
        with \<open>k < length (scans st)\<close> AwaitNetworkAt Fulfilled show ?thesis
          by (simp add: fetchAndUpdateNetworksData_networkAt_def networks_only_def)
      next
        case False
        with True AwaitNetworkAt Fulfilled networks_only_loop [of st k "index + 1"]
        show ?thesis by (simp add: fetchAndUpdateNetworksData_networkAt_def)
      qed
    qed
  qed (use True in \<open>simp_all add: fetchAndUpdateNetworksData_networkAt_def\<close>)
qed

lemma networks_only_scan: "networks_only st (networks_scan seq k st)"
proof (induction seq k st rule: networks_scan.induct)
  case (1 seq k st)
  show ?case
  proof (cases "k < length (scans st)")
    case False
    then show ?thesis by (simp add: networks_scan.simps [of seq k st])
  next
    case True
    show ?thesis
    proof (cases "scans st ! k")
      case (AwaitNetworkAt index)
      let ?st = "fetchAndUpdateNetworksData_networkAt k (networkAt seq index) st"
      have "networks_only st ?st" by (rule networks_only_networkAt)
      moreover from "1.IH" [OF True AwaitNetworkAt]
      have "networks_only ?st (networks_scan seq k ?st)" .
      ultimately have "networks_only st (networks_scan seq k ?st)"
        by (rule networks_only_trans)
      with True AwaitNetworkAt show ?thesis by (simp add: networks_scan.simps [of seq k st])
    qed (use True in \<open>simp_all add: networks_scan.simps [of seq k st]\<close>)
  qed
qed

lemma networks_only_fetchNetworks:
  "networks_only st (snd (fetchNetworksAndSubscribeToChanges seq st))"
proof -
  let ?k = "length (scans st)"
  let ?s1 = "fetchAndUpdateNetworksData st"
  let ?s2 = "fetchAndUpdateNetworksData_numNetworks ?k (numNetworks seq) ?s1"
  let ?s3 = "networks_scan seq ?k ?s2"
  have "networks_only st ?s1" by (rule networks_only_start)
  moreover have "networks_only ?s1 ?s2" by (rule networks_only_numNetworks)
  moreover have "networks_only ?s2 ?s3" by (rule networks_only_scan)
  ultimately have "networks_only st ?s3" by (blast intro: networks_only_trans)
  moreover have "snd (fetchNetworksAndSubscribeToChanges seq st) = ?s3"
    by (simp add: fetchNetworksAndSubscribeToChanges_def Let_def split: scan_stage.splits)
  ultimately show ?thesis by (simp only:)
qed

lemma networks_only_RemoveNetwork: "networks_only st (RemoveNetwork_handler st)"
  unfolding RemoveNetwork_handler_def by (rule networks_only_start)

lemma jobs_networks_only: "networks_only st st' \<Longrightarrow> jobs st' = jobs st"
  by (simp add: networks_only_def)

lemma jobs_fetchAndUpdateNetworksData_numNetworks [simp]:
  "jobs (fetchAndUpdateNetworksData_numNetworks k r st) = jobs st"
  by (rule jobs_networks_only) (rule networks_only_numNetworks)

lemma jobs_fetchAndUpdateNetworksData_networkAt [simp]:
  "jobs (fetchAndUpdateNetworksData_networkAt k r st) = jobs st"
  by (rule jobs_networks_only) (rule networks_only_networkAt)

lemma jobs_fetchNetworks [simp]:
  "jobs (snd (fetchNetworksAndSubscribeToChanges seq st)) = jobs st"
  by (rule jobs_networks_only) (rule networks_only_fetchNetworks)

lemma jobs_AddNetwork_handler [simp]: "jobs (AddNetwork_handler w st) = jobs st"
  by (simp add: AddNetwork_handler_def fetchAndUpdateNetworksData_def split: settled.splits)

lemma jobs_RemoveNetwork_handler [simp]: "jobs (RemoveNetwork_handler st) = jobs st"
  by (simp add: RemoveNetwork_handler_def fetchAndUpdateNetworksData_def)

lemma jobs_fetchBlocksInWindow [simp]:
  "jobs (snd (fetchBlocksInWindowAndSubscribeToChanges seq st)) = jobs st"
  by (simp add: fetchBlocksInWindowAndSubscribeToChanges_def split: settled.splits)


subsection \<open>The values stored in \<^verbatim>\<open>jobs\<close>\<close>

lemma update_None_values:
  assumes "\<forall>v \<in> snd ` set js. v = None"
  shows "\<forall>v \<in> snd ` set (AList.update a None js). v = None"
  using assms by (induction js) auto

lemma delete_values:
  assumes "\<forall>v \<in> snd ` set js. v = None"
  shows "\<forall>v \<in> snd ` set (AList.delete a js). v = None"
  using assms by (auto simp: AList.delete_eq)

lemma foldl_update_None_values:
  assumes "\<forall>v \<in> snd ` set js. v = None"
  shows "\<forall>v \<in> snd ` set (foldl (\<lambda>js a. AList.update a None js) js as). v = None"
  using assms
proof (induction as arbitrary: js)
  case Nil
  then show ?case by simp
next
  case (Cons a as)
  from Cons.prems have "\<forall>v \<in> snd ` set (AList.update a None js). v = None"
    by (rule update_None_values)
  then have "\<forall>v \<in> snd ` set (foldl (\<lambda>js a. AList.update a None js)
                                 (AList.update a None js) as). v = None"
    by (rule Cons.IH)
  then show ?case by simp
qed

lemma jobs_undefined_initial: "jobs_undefined initial"
  by (simp add: jobs_undefined_def initial_def)

lemma jobs_undefined_AddJob:
  assumes "jobs_undefined st"
  shows "jobs_undefined (AddJob_handler a st)"
proof -
  have "jobs (AddJob_handler a st) = AList.update a None (jobs st)"
    by (simp add: AddJob_handler_def)
  moreover have "\<forall>v \<in> snd ` set (AList.update a None (jobs st)). v = None"
    using assms unfolding jobs_undefined_def by (rule update_None_values)
  ultimately show ?thesis
    unfolding jobs_undefined_def by (simp only:)
qed

lemma no_function_stored:
  assumes "jobs_undefined st"
  shows "map_of (jobs st) a \<noteq> Some (Some f)"
proof
  assume "map_of (jobs st) a = Some (Some f)"
  then have "(a, Some f) \<in> set (jobs st)" by (rule map_of_SomeD)
  then have "snd (a, Some f) \<in> snd ` set (jobs st)" by (rule imageI)
  then have "Some f \<in> snd ` set (jobs st)" by simp
  with assms have "Some f = None" unfolding jobs_undefined_def by (rule bspec)
  then show False by simp
qed


lemma RemoveJob_only_deletes:
  assumes "jobs_undefined st"
  shows "RemoveJob_handler a st = st\<lparr>jobs := AList.delete a (jobs st)\<rparr>"
proof -
  have same: "(case map_of (jobs st) a of Some (Some f) \<Rightarrow> unsubscribe f st | _ \<Rightarrow> st) = st"
  proof (cases "map_of (jobs st) a")
    case None
    then show ?thesis by simp
  next
    case (Some v)
    show ?thesis
    proof (cases v)
      case None
      with Some show ?thesis by simp
    next
      case (Some f)
      with \<open>map_of (jobs st) a = Some v\<close> no_function_stored [OF assms, of a f]
      show ?thesis by simp
    qed
  qed
  show ?thesis
    unfolding RemoveJob_handler_def Let_def same ..
qed

lemma jobs_undefined_RemoveJob:
  assumes "jobs_undefined st"
  shows "jobs_undefined (RemoveJob_handler a st)"
proof -
  have "jobs (RemoveJob_handler a st) = AList.delete a (jobs st)"
    by (simp add: RemoveJob_only_deletes [OF assms])
  moreover have "\<forall>v \<in> snd ` set (AList.delete a (jobs st)). v = None"
    using assms unfolding jobs_undefined_def by (rule delete_values)
  ultimately show ?thesis
    unfolding jobs_undefined_def by (simp only:)
qed

lemma jobs_fetchJobs:
  "jobs (snd (fetchJobsAndSubscribeToChanges seq st)) = jobs st
   \<or> (\<exists>as. jobs (snd (fetchJobsAndSubscribeToChanges seq st))
             = foldl (\<lambda>js a. AList.update a None js) (jobs st) as)"
  by (auto simp: fetchJobsAndSubscribeToChanges_def split: settled.splits)

lemma jobs_undefined_fetchJobs:
  assumes "jobs_undefined st"
  shows "jobs_undefined (snd (fetchJobsAndSubscribeToChanges seq st))"
proof -
  have "\<forall>v \<in> snd ` set (foldl (\<lambda>js a. AList.update a None js) (jobs st) as). v = None" for as
    using assms unfolding jobs_undefined_def by (rule foldl_update_None_values)
  with jobs_fetchJobs [of seq st] assms show ?thesis
    unfolding jobs_undefined_def by metis
qed

lemma jobs_undefined_turn_flashbots:
  assumes "jobs_undefined st"
  shows "jobs_undefined (turn_flashbots t st)"
proof (cases t)
  case (AddJob a)
  with assms show ?thesis by (simp add: jobs_undefined_AddJob)
next
  case (RemoveJob a)
  with assms show ?thesis by (simp add: jobs_undefined_RemoveJob)
qed (use assms in \<open>simp_all add: jobs_undefined_def\<close>)

lemma jobs_undefined_turn_broadcast:
  assumes "jobs_undefined st"
  shows "jobs_undefined (turn_broadcast t st)"
proof (cases t)
  case (AddJob a)
  with assms show ?thesis by (simp add: jobs_undefined_AddJob)
next
  case (RemoveJob a)
  with assms show ?thesis by (simp add: jobs_undefined_RemoveJob)
qed (use assms in \<open>simp_all add: jobs_undefined_def\<close>)

lemma jobs_undefined_turns_flashbots:
  "jobs_undefined st \<Longrightarrow> jobs_undefined (turns_flashbots ts st)"
  unfolding turns_flashbots_def
  by (induction ts arbitrary: st) (simp_all add: jobs_undefined_turn_flashbots)

lemma jobs_undefined_turns_broadcast:
  "jobs_undefined st \<Longrightarrow> jobs_undefined (turns_broadcast ts st)"
  unfolding turns_broadcast_def
  by (induction ts arbitrary: st) (simp_all add: jobs_undefined_turn_broadcast)

lemma jobs_undefined_fetches:
  assumes "jobs_undefined st"
  shows "jobs_undefined (snd (fetchBlocksInWindowAndSubscribeToChanges seq st))"
    and "jobs_undefined (snd (fetchNetworksAndSubscribeToChanges seq st))"
  using assms
  by (simp_all add: jobs_undefined_def)

lemma jobs_undefined_main_flashbots:
  assumes "jobs_undefined st"
  shows "jobs_undefined (main_flashbots seq st)"
proof -
  obtain r1 s1 where e1: "fetchBlocksInWindowAndSubscribeToChanges seq st = (r1, s1)"
    by (cases "fetchBlocksInWindowAndSubscribeToChanges seq st")
  obtain r2 s2 where e2: "fetchJobsAndSubscribeToChanges seq s1 = (r2, s2)"
    by (cases "fetchJobsAndSubscribeToChanges seq s1")
  obtain r3 s3 where e3: "fetchNetworksAndSubscribeToChanges seq s2 = (r3, s3)"
    by (cases "fetchNetworksAndSubscribeToChanges seq s2")
  have 1: "jobs_undefined s1"
    using jobs_undefined_fetches(1) [OF assms, of seq] e1 by simp
  have 2: "jobs_undefined s2"
    using jobs_undefined_fetchJobs [OF 1, of seq] e2 by simp
  have 3: "jobs_undefined s3"
    using jobs_undefined_fetches(2) [OF 2, of seq] e3 by simp
  have 4: "jobs_undefined (run_flashbots s3)"
    using 3 by (simp add: jobs_undefined_def)
  show ?thesis
  proof (cases r1)
    case Rejected
    then show ?thesis by (simp add: main_flashbots_def e1 1)
  next
    case f1: Fulfilled
    show ?thesis
    proof (cases r2)
      case Rejected
      then show ?thesis by (simp add: main_flashbots_def e1 f1 e2 2)
    next
      case f2: Fulfilled
      show ?thesis
        by (cases r3) (simp_all add: main_flashbots_def e1 f1 e2 f2 e3 3 4)
    qed
  qed
qed

lemma jobs_undefined_run_broadcast:
  assumes "jobs_undefined st"
  shows "jobs_undefined (run_broadcast seq latest st)"
proof (cases "keep3rSequencerPosition st = - 1")
  case True
  with assms show ?thesis
    by (simp add: run_broadcast_def jobs_undefined_def)
next
  case False
  obtain r1 s1 where e1: "fetchBlocksInWindowAndSubscribeToChanges seq st = (r1, s1)"
    by (cases "fetchBlocksInWindowAndSubscribeToChanges seq st")
  obtain r2 s2 where e2: "fetchJobsAndSubscribeToChanges seq s1 = (r2, s2)"
    by (cases "fetchJobsAndSubscribeToChanges seq s1")
  obtain r3 s3 where e3: "fetchNetworksAndSubscribeToChanges seq s2 = (r3, s3)"
    by (cases "fetchNetworksAndSubscribeToChanges seq s2")
  have 1: "jobs_undefined s1"
    using jobs_undefined_fetches(1) [OF assms, of seq] e1 by simp
  have 2: "jobs_undefined s2"
    using jobs_undefined_fetchJobs [OF 1, of seq] e2 by simp
  have 3: "jobs_undefined s3"
    using jobs_undefined_fetches(2) [OF 2, of seq] e3 by simp
  from 1 2 3 have u: "\<forall>v \<in> snd ` set (jobs s1). v = None"
    "\<forall>v \<in> snd ` set (jobs s2). v = None" "\<forall>v \<in> snd ` set (jobs s3). v = None"
    by (simp_all add: jobs_undefined_def)
  have "jobs (run_broadcast seq latest st) = jobs s1
      \<or> jobs (run_broadcast seq latest st) = jobs s2
      \<or> jobs (run_broadcast seq latest st) = jobs s3"
  proof (cases r1)
    case Rejected
    then show ?thesis by (simp add: run_broadcast_def False e1)
  next
    case f1: Fulfilled
    show ?thesis
    proof (cases r2)
      case Rejected
      then show ?thesis by (simp add: run_broadcast_def False e1 f1 e2)
    next
      case f2: Fulfilled
      show ?thesis
      proof (cases r3)
        case Rejected
        then show ?thesis by (simp add: run_broadcast_def False e1 f1 e2 f2 e3)
      next
        case f3: Fulfilled
        show ?thesis
          by (cases latest) (simp_all add: run_broadcast_def False e1 f1 e2 f2 e3 f3 Let_def)
      qed
    qed
  qed
  with u show ?thesis unfolding jobs_undefined_def by metis
qed

text \<open>
  C9. In both scripts, from the start on and after any turns of the event loop, every
  value stored in \<^verbatim>\<open>jobs\<close> is \<^verbatim>\<open>undefined\<close>. So the handler of a job-removed event never
  calls a stored unsubscribe function: all it does is delete the key.
\<close>

theorem jobs_hold_no_unsubscribe_function:
  "jobs_undefined (turns_flashbots ts (main_flashbots seq initial))
   \<and> jobs_undefined (turns_broadcast ts (run_broadcast seq latest initial))
   \<and> RemoveJob_handler a (turns_flashbots ts (main_flashbots seq initial))
       = (turns_flashbots ts (main_flashbots seq initial))
           \<lparr>jobs := AList.delete a (jobs (turns_flashbots ts (main_flashbots seq initial)))\<rparr>
   \<and> RemoveJob_handler a (turns_broadcast ts (run_broadcast seq latest initial))
       = (turns_broadcast ts (run_broadcast seq latest initial))
           \<lparr>jobs := AList.delete a (jobs (turns_broadcast ts (run_broadcast seq latest initial)))\<rparr>"
proof -
  have f: "jobs_undefined (turns_flashbots ts (main_flashbots seq initial))"
    by (intro jobs_undefined_turns_flashbots jobs_undefined_main_flashbots jobs_undefined_initial)
  have b: "jobs_undefined (turns_broadcast ts (run_broadcast seq latest initial))"
    by (intro jobs_undefined_turns_broadcast jobs_undefined_run_broadcast jobs_undefined_initial)
  show ?thesis
    by (intro conjI f b RemoveJob_only_deletes [OF f] RemoveJob_only_deletes [OF b])
qed


lemmas startup_defs =
  main_flashbots_def run_broadcast_def run_flashbots_def
  fetchBlocksInWindowAndSubscribeToChanges_def fetchJobsAndSubscribeToChanges_def
  fetchNetworksAndSubscribeToChanges_def fetchAndUpdateNetworksData_def
  fetchAndUpdateNetworksData_numNetworks_def fetchAndUpdateNetworksData_networkAt_def
  networks_loop_def jobAddresses_from.simps networks_scan.simps log_call_def initial_def
  example_sequencer_def example_sequencer_unlisted_def example_sequencer_last_def
  example_sequencer_wide_def KEEP3R_NETWORK_TAG_def Let_def toNumber_def await_toNumber_def

lemma main_flashbots_example:
  "main_flashbots example_sequencer initial
     = initial\<lparr>blocksInWindow := 13, networksAmount := 3, keep3rSequencerPosition := 1,
               jobs := [(''0xJobA'', None), (''0xJobB'', None)],
               runs := [AwaitGetBlock], scans := [ScanReturned], calls := [GetBlock]\<rparr>"
  by (simp add: startup_defs)

theorem jobs_hold_no_unsubscribe_function_witness:
  "jobs (turns_flashbots [AddJob ''0xJobC'', RemoveJob ''0xJobA'']
           (main_flashbots example_sequencer initial))
     = [(''0xJobB'', None), (''0xJobC'', None)]
   \<and> jobs_undefined (turns_flashbots [AddJob ''0xJobC'', RemoveJob ''0xJobA'']
           (main_flashbots example_sequencer initial))
   \<and> RemoveJob_handler ''0xJobB''
         (turns_flashbots [AddJob ''0xJobC'', RemoveJob ''0xJobA'']
            (main_flashbots example_sequencer initial))
       = (turns_flashbots [AddJob ''0xJobC'', RemoveJob ''0xJobA'']
            (main_flashbots example_sequencer initial))\<lparr>jobs := [(''0xJobC'', None)]\<rparr>"
proof -
  let ?st = "turns_flashbots [AddJob ''0xJobC'', RemoveJob ''0xJobA'']
               (main_flashbots example_sequencer initial)"
  have ev: "jobs ?st = [(''0xJobB'', None), (''0xJobC'', None)]"
    by (simp add: main_flashbots_example turns_flashbots_def AddJob_handler_def
        RemoveJob_handler_def)
  from jobs_hold_no_unsubscribe_function
         [of "[AddJob ''0xJobC'', RemoveJob ''0xJobA'']" example_sequencer _ "''0xJobB''"]
  have "jobs_undefined ?st"
    and "RemoveJob_handler ''0xJobB'' ?st = ?st\<lparr>jobs := AList.delete ''0xJobB'' (jobs ?st)\<rparr>"
    by blast+
  then show ?thesis
    by (simp add: ev)
qed

section \<open>The in-progress flag of \<^verbatim>\<open>tryToWorkJob\<close>\<close>

subsection \<open>The flags and the activations under each stretch\<close>
section \<open>The position in the whitelist\<close>

subsection \<open>An activation that runs alone\<close>

lemma networkAt_keeps [simp]:
  "length (scans (fetchAndUpdateNetworksData_networkAt k r st)) = length (scans st)"
  "networksAmount (fetchAndUpdateNetworksData_networkAt k r st) = networksAmount st"
  by (simp_all add: fetchAndUpdateNetworksData_networkAt_def networks_loop_def
      split: scan_stage.splits settled.splits)

lemma networks_scan_settled:
  assumes "k < length (scans st)" and "\<forall>index. scans st ! k \<noteq> AwaitNetworkAt index"
  shows "networks_scan seq k st = st"
  using assms by (cases "scans st ! k") (simp_all add: networks_scan.simps [of seq k st])

text \<open>
  What the loop leaves behind when it runs alone from \<open>index\<close> on and returns:
  \<^verbatim>\<open>networksAmount\<close> is untouched, and the position is the first index from \<open>index\<close> on that
  holds the tag, or \<open>-1\<close>.
\<close>

lemma networks_scan_result:
  assumes "k < length (scans st)" and "scans st ! k = AwaitNetworkAt index"
    and "index < networksAmount st"
    and "scans (networks_scan seq k st) ! k = ScanReturned"
  shows "networksAmount (networks_scan seq k st) = networksAmount st
     \<and> ((keep3rSequencerPosition (networks_scan seq k st) = - 1
          \<and> (\<forall>i. index \<le> i \<and> i < networksAmount st
                \<longrightarrow> networkAt seq i \<noteq> Fulfilled KEEP3R_NETWORK_TAG))
        \<or> (index \<le> keep3rSequencerPosition (networks_scan seq k st)
          \<and> keep3rSequencerPosition (networks_scan seq k st) < networksAmount st
          \<and> networkAt seq (keep3rSequencerPosition (networks_scan seq k st))
              = Fulfilled KEEP3R_NETWORK_TAG
          \<and> (\<forall>i. index \<le> i \<and> i < keep3rSequencerPosition (networks_scan seq k st)
                \<longrightarrow> networkAt seq i \<noteq> Fulfilled KEEP3R_NETWORK_TAG)))"
  using assms
proof (induction seq k st arbitrary: index rule: networks_scan.induct)
  case (1 seq k st)
  let ?st = "fetchAndUpdateNetworksData_networkAt k (networkAt seq index) st"
  note k = "1.prems"(1) and stage = "1.prems"(2) and inrange = "1.prems"(3)
  have unfold: "networks_scan seq k st = networks_scan seq k ?st"
    using k stage by (simp add: networks_scan.simps [of seq k st])
  have k': "k < length (scans ?st)" using k by simp
  show ?case
  proof (cases "networkAt seq index")
    case (Rejected e)
    with k stage have st: "?st = st\<lparr>scans := (scans st)[k := ScanThrew e]\<rparr>"
      by (simp add: fetchAndUpdateNetworksData_networkAt_def)
    have "networks_scan seq k ?st = ?st"
      using k' by (rule networks_scan_settled) (simp add: st k)
    with "1.prems"(4) unfold k show ?thesis by (simp add: st)
  next
    case (Fulfilled network)
    show ?thesis
    proof (cases "network = KEEP3R_NETWORK_TAG")
      case True
      with k stage Fulfilled
      have st: "?st = st\<lparr>keep3rSequencerPosition := index,
                           scans := (scans st)[k := ScanReturned]\<rparr>"
        by (simp add: fetchAndUpdateNetworksData_networkAt_def)
      have "networks_scan seq k ?st = ?st"
        using k' by (rule networks_scan_settled) (simp add: st k)
      then have final: "networks_scan seq k st = ?st" using unfold by simp
      have pos: "keep3rSequencerPosition ?st = index" by (simp add: st)
      have amount: "networksAmount ?st = networksAmount st" by simp
      show ?thesis
        unfolding final pos amount using inrange Fulfilled True by auto
    next
      case False
      have here: "networkAt seq index \<noteq> Fulfilled KEEP3R_NETWORK_TAG"
        using Fulfilled False by simp
      show ?thesis
      proof (cases "index + 1 < networksAmount st")
        case False
        with k stage Fulfilled \<open>network \<noteq> KEEP3R_NETWORK_TAG\<close>
        have st: "?st = st\<lparr>keep3rSequencerPosition := - 1,
                             scans := (scans st)[k := ScanReturned]\<rparr>"
          by (simp add: fetchAndUpdateNetworksData_networkAt_def networks_loop_def)
        have "networks_scan seq k ?st = ?st"
          using k' by (rule networks_scan_settled) (simp add: st k)
        then have final: "networks_scan seq k st = ?st" using unfold by simp
        have "\<forall>i. index \<le> i \<and> i < networksAmount st
            \<longrightarrow> networkAt seq i \<noteq> Fulfilled KEEP3R_NETWORK_TAG"
        proof (intro allI impI)
          fix i assume "index \<le> i \<and> i < networksAmount st"
          with False have "i = index" by linarith
          with here show "networkAt seq i \<noteq> Fulfilled KEEP3R_NETWORK_TAG" by simp
        qed
        moreover have "keep3rSequencerPosition ?st = - 1" by (simp add: st)
        moreover have "networksAmount ?st = networksAmount st" by simp
        ultimately show ?thesis unfolding final by blast
      next
        case True
        with k stage Fulfilled \<open>network \<noteq> KEEP3R_NETWORK_TAG\<close>
        have st: "?st = st\<lparr>scans := (scans st)[k := AwaitNetworkAt (index + 1)]\<rparr>"
          by (simp add: fetchAndUpdateNetworksData_networkAt_def networks_loop_def)
        have stage': "scans ?st ! k = AwaitNetworkAt (index + 1)" using k by (simp add: st)
        have inrange': "index + 1 < networksAmount ?st" using True by simp
        have returned: "scans (networks_scan seq k ?st) ! k = ScanReturned"
          using "1.prems"(4) unfold by simp
        let ?pos = "keep3rSequencerPosition (networks_scan seq k ?st)"
        from "1.IH" [OF k stage k' stage' inrange' returned]
        have amount: "networksAmount (networks_scan seq k ?st) = networksAmount st"
          and alt: "(?pos = - 1
                \<and> (\<forall>i. index + 1 \<le> i \<and> i < networksAmount st
                      \<longrightarrow> networkAt seq i \<noteq> Fulfilled KEEP3R_NETWORK_TAG))
              \<or> (index + 1 \<le> ?pos \<and> ?pos < networksAmount st
                \<and> networkAt seq ?pos = Fulfilled KEEP3R_NETWORK_TAG
                \<and> (\<forall>i. index + 1 \<le> i \<and> i < ?pos
                      \<longrightarrow> networkAt seq i \<noteq> Fulfilled KEEP3R_NETWORK_TAG))"
          by simp_all
        have ext: "\<forall>i. index \<le> i \<and> i < m \<longrightarrow> networkAt seq i \<noteq> Fulfilled KEEP3R_NETWORK_TAG"
          if "\<forall>i. index + 1 \<le> i \<and> i < m \<longrightarrow> networkAt seq i \<noteq> Fulfilled KEEP3R_NETWORK_TAG"
          for m
        proof (intro allI impI)
          fix i assume i: "index \<le> i \<and> i < m"
          show "networkAt seq i \<noteq> Fulfilled KEEP3R_NETWORK_TAG"
          proof (cases "i = index")
            case True
            with here show ?thesis by simp
          next
            case False
            with i have "index + 1 \<le> i \<and> i < m" by linarith
            with that show ?thesis by blast
          qed
        qed
        from alt consider
            (none) "?pos = - 1"
              "\<forall>i. index + 1 \<le> i \<and> i < networksAmount st
                 \<longrightarrow> networkAt seq i \<noteq> Fulfilled KEEP3R_NETWORK_TAG"
          | (found) "index + 1 \<le> ?pos" "?pos < networksAmount st"
              "networkAt seq ?pos = Fulfilled KEEP3R_NETWORK_TAG"
              "\<forall>i. index + 1 \<le> i \<and> i < ?pos \<longrightarrow> networkAt seq i \<noteq> Fulfilled KEEP3R_NETWORK_TAG"
          by blast
        then show ?thesis
        proof cases
          case none
          from ext [OF none(2)] none(1) amount show ?thesis unfolding unfold by blast
        next
          case found
          from found(1) have "index \<le> ?pos" by linarith
          with ext [OF found(4)] found(2,3) amount show ?thesis unfolding unfold by blast
        qed
      qed
    qed
  qed
qed

text \<open>An activation that runs alone ends: it has returned or thrown.\<close>

lemma networks_scan_ends:
  assumes "k < length (scans st)" and "scans st ! k \<noteq> AwaitNumNetworks"
  shows "scans (networks_scan seq k st) ! k = ScanReturned
     \<or> (\<exists>e. scans (networks_scan seq k st) ! k = ScanThrew e)"
  using assms
proof (induction seq k st rule: networks_scan.induct)
  case (1 seq k st)
  show ?case
  proof (cases "scans st ! k")
    case (AwaitNetworkAt index)
    let ?st = "fetchAndUpdateNetworksData_networkAt k (networkAt seq index) st"
    have unfold: "networks_scan seq k st = networks_scan seq k ?st"
      using "1.prems"(1) AwaitNetworkAt by (simp add: networks_scan.simps [of seq k st])
    have k': "k < length (scans ?st)" using "1.prems"(1) by simp
    have "scans ?st ! k \<noteq> AwaitNumNetworks"
      using "1.prems"(1) AwaitNetworkAt
      by (simp add: fetchAndUpdateNetworksData_networkAt_def networks_loop_def
          split: settled.splits)
    from "1.IH" [OF "1.prems"(1) AwaitNetworkAt k' this] show ?thesis
      unfolding unfold .
  qed (use "1.prems" in \<open>simp_all add: networks_scan.simps [of seq k st]\<close>)
qed

text \<open>
  The position after the start-up, when the fetch of the networks did not throw:
  \<^verbatim>\<open>networksAmount\<close> is the size read from the sequencer and \<^verbatim>\<open>keep3rSequencerPosition\<close> is
  the least index below it whose network is the keeper's tag, or \<open>-1\<close> when no index below
  it has the tag.
\<close>

lemma fetchNetworks_least_index:
  assumes "fetchNetworksAndSubscribeToChanges seq st = (Fulfilled (), st')"
  shows "numNetworks seq = Fulfilled (networksAmount st')
     \<and> (if \<exists>i. 0 \<le> i \<and> i < networksAmount st'
                \<and> networkAt seq i = Fulfilled KEEP3R_NETWORK_TAG
        then 0 \<le> keep3rSequencerPosition st'
           \<and> keep3rSequencerPosition st' < networksAmount st'
           \<and> networkAt seq (keep3rSequencerPosition st') = Fulfilled KEEP3R_NETWORK_TAG
           \<and> (\<forall>i. 0 \<le> i \<and> i < keep3rSequencerPosition st'
                 \<longrightarrow> networkAt seq i \<noteq> Fulfilled KEEP3R_NETWORK_TAG)
        else keep3rSequencerPosition st' = - 1)
     \<and> (keep3rSequencerPosition st' \<noteq> - 1
          \<longrightarrow> keep3rSequencerPosition st' < networksAmount st')"
proof -
  let ?k = "length (scans st)"
  let ?s1 = "fetchAndUpdateNetworksData st"
  let ?s2 = "fetchAndUpdateNetworksData_numNetworks ?k (numNetworks seq) ?s1"
  have s1: "?s1 = st\<lparr>scans := scans st @ [AwaitNumNetworks]\<rparr>"
    by (simp add: fetchAndUpdateNetworksData_def)
  have st': "st' = networks_scan seq ?k ?s2"
    using assms
    by (simp add: fetchNetworksAndSubscribeToChanges_def Let_def split: scan_stage.splits)
  have not_thrown: "\<forall>e. scans st' ! ?k \<noteq> ScanThrew e"
    using assms
    by (auto simp: fetchNetworksAndSubscribeToChanges_def Let_def split: scan_stage.splits)
  show ?thesis
  proof (cases "await_toNumber (numNetworks seq)")
    case (Rejected e)
    then have s2: "?s2 = st\<lparr>scans := scans st @ [ScanThrew e]\<rparr>"
      by (simp add: fetchAndUpdateNetworksData_numNetworks_def s1)
    have "networks_scan seq ?k ?s2 = ?s2"
      by (rule networks_scan_settled) (simp_all add: s2)
    with not_thrown st' show ?thesis by (simp add: s2)
  next
    case converted: (Fulfilled n)
    then have Fulfilled: "numNetworks seq = Fulfilled n"
      by (simp add: await_toNumber_def toNumber_def split: settled.splits if_splits)
    show ?thesis
    proof (cases "0 < n")
      case False
      with converted
      have s2: "?s2 = st\<lparr>networksAmount := n, keep3rSequencerPosition := - 1,
                           scans := scans st @ [ScanReturned]\<rparr>"
        by (simp add: fetchAndUpdateNetworksData_numNetworks_def networks_loop_def s1)
      have "networks_scan seq ?k ?s2 = ?s2"
        by (rule networks_scan_settled) (simp_all add: s2)
      then have "st' = ?s2" using st' by simp
      then have "networksAmount st' = n" "keep3rSequencerPosition st' = - 1"
        by (simp_all add: s2)
      with False Fulfilled show ?thesis by auto
    next
      case True
      with converted
      have s2: "?s2 = st\<lparr>networksAmount := n, scans := scans st @ [AwaitNetworkAt 0]\<rparr>"
        by (simp add: fetchAndUpdateNetworksData_numNetworks_def networks_loop_def s1)
      have k: "?k < length (scans ?s2)" and stage: "scans ?s2 ! ?k = AwaitNetworkAt 0"
        and inrange: "0 < networksAmount ?s2"
        using True by (simp_all add: s2)
      have "scans ?s2 ! ?k \<noteq> AwaitNumNetworks" using stage by simp
      from networks_scan_ends [OF k this, of seq] not_thrown st'
      have returned: "scans (networks_scan seq ?k ?s2) ! ?k = ScanReturned" by auto
      let ?pos = "keep3rSequencerPosition st'"
      from networks_scan_result [OF k stage inrange returned]
      have amount: "networksAmount st' = n"
        and alt: "(?pos = - 1
              \<and> (\<forall>i. 0 \<le> i \<and> i < n \<longrightarrow> networkAt seq i \<noteq> Fulfilled KEEP3R_NETWORK_TAG))
            \<or> (0 \<le> ?pos \<and> ?pos < n \<and> networkAt seq ?pos = Fulfilled KEEP3R_NETWORK_TAG
              \<and> (\<forall>i. 0 \<le> i \<and> i < ?pos \<longrightarrow> networkAt seq i \<noteq> Fulfilled KEEP3R_NETWORK_TAG))"
        unfolding st' [symmetric] by (simp_all add: s2)
      from alt show ?thesis
      proof
        assume "?pos = - 1
              \<and> (\<forall>i. 0 \<le> i \<and> i < n \<longrightarrow> networkAt seq i \<noteq> Fulfilled KEEP3R_NETWORK_TAG)"
        then show ?thesis using Fulfilled amount by auto
      next
        assume "0 \<le> ?pos \<and> ?pos < n \<and> networkAt seq ?pos = Fulfilled KEEP3R_NETWORK_TAG
              \<and> (\<forall>i. 0 \<le> i \<and> i < ?pos \<longrightarrow> networkAt seq i \<noteq> Fulfilled KEEP3R_NETWORK_TAG)"
        then show ?thesis using Fulfilled amount by auto
      qed
    qed
  qed
qed

subsection \<open>A recomputation after an event\<close>

lemma main_flashbots_last:
  "main_flashbots example_sequencer_last initial
     = initial\<lparr>blocksInWindow := 13, networksAmount := 3, keep3rSequencerPosition := 2,
               jobs := [(''0xJobA'', None), (''0xJobB'', None)],
               runs := [AwaitGetBlock], scans := [ScanReturned], calls := [GetBlock]\<rparr>"
  by (simp add: startup_defs)

lemmas networks_defs =
  turns_flashbots_def AddNetwork_handler_def RemoveNetwork_handler_def
  fetchAndUpdateNetworksData_def fetchAndUpdateNetworksData_numNetworks_def
  fetchAndUpdateNetworksData_networkAt_def networks_loop_def initial_def
  KEEP3R_NETWORK_TAG_def toNumber_def await_toNumber_def

text \<open>
  A recomputation after an event whose reads are all answered before anything else
  happens: the network at index 0 is removed, the keeper's network has taken its place,
  and the position becomes 0.
\<close>

lemma example_recomputation:
  "turns_flashbots
     [RemoveNetwork, NumNetworksSettles 1 (Fulfilled 2),
      NetworkAtSettles 1 (Fulfilled KEEP3R_NETWORK_TAG)]
     (main_flashbots example_sequencer_last initial)
   = (main_flashbots example_sequencer_last initial)
       \<lparr>networksAmount := 2, keep3rSequencerPosition := 0,
        scans := [ScanReturned, ScanReturned]\<rparr>"
  unfolding main_flashbots_last by (simp add: networks_defs)

text \<open>
  C8. The claim: after every recomputation of the position, at the start and on each
  network-added or network-removed event, the position is the least index below the size
  of the whitelist that holds the keeper's tag, or \<open>-1\<close>; so the position is below the
  size whenever it is not \<open>-1\<close>. The start-up does so (lemma \<open>fetchNetworks_least_index\<close>).
  The recomputation after an event does not, for it writes \<^verbatim>\<open>networksAmount\<close> first and the
  position at its end, many \<^verbatim>\<open>await\<close>s later, and it ends without writing the position
  when a read is rejected.

  The Flashbots script starts on a whitelist of three networks with the keeper's last:
  size 3, position 2. A network is removed, and the recomputation reads the size 2. Now
  the position 2 is not below the size 2, while blocks and timers are handled. The read of
  the network at index 0 is rejected: the recomputation has ended, and the size stays 2
  and the position 2.

  Two recomputations that overlap: a network is added, the first recomputation reads the
  size 4 and the networks at the indices 0 and 1, and asks for the one at index 2. The
  keeper's network is removed, and the second recomputation reads the size 3 and three
  networks that are not the keeper's, and sets the position to \<open>-1\<close>. Then the answer to
  the first recomputation arrives, the keeper's tag as it stood at index 2, and the
  position becomes 2: the last recomputation found no index with the tag, and the
  position is not \<open>-1\<close>.
\<close>

theorem fetchAndUpdateNetworksData_leaves_stale_position:
  "networksAmount (main_flashbots example_sequencer_last initial) = 3
   \<and> keep3rSequencerPosition (main_flashbots example_sequencer_last initial) = 2
   \<and> networksAmount (turns_flashbots [RemoveNetwork, NumNetworksSettles 1 (Fulfilled 2)]
        (main_flashbots example_sequencer_last initial)) = 2
   \<and> keep3rSequencerPosition (turns_flashbots [RemoveNetwork, NumNetworksSettles 1 (Fulfilled 2)]
        (main_flashbots example_sequencer_last initial)) = 2
   \<and> scans (turns_flashbots [RemoveNetwork, NumNetworksSettles 1 (Fulfilled 2)]
        (main_flashbots example_sequencer_last initial)) = [ScanReturned, AwaitNetworkAt 0]
   \<and> networksAmount (turns_flashbots
        [RemoveNetwork, NumNetworksSettles 1 (Fulfilled 2),
         NetworkAtSettles 1 (Rejected ''timeout'')]
        (main_flashbots example_sequencer_last initial)) = 2
   \<and> keep3rSequencerPosition (turns_flashbots
        [RemoveNetwork, NumNetworksSettles 1 (Fulfilled 2),
         NetworkAtSettles 1 (Rejected ''timeout'')]
        (main_flashbots example_sequencer_last initial)) = 2
   \<and> scans (turns_flashbots
        [RemoveNetwork, NumNetworksSettles 1 (Fulfilled 2),
         NetworkAtSettles 1 (Rejected ''timeout'')]
        (main_flashbots example_sequencer_last initial)) = [ScanReturned, ScanThrew ''timeout'']
   \<and> networksAmount (turns_flashbots
        [AddNetwork 13, NumNetworksSettles 1 (Fulfilled 4),
         NetworkAtSettles 1 (Fulfilled ''0x4f54484552''),
         NetworkAtSettles 1 (Fulfilled ''0x4f54484552''),
         RemoveNetwork, NumNetworksSettles 2 (Fulfilled 3),
         NetworkAtSettles 2 (Fulfilled ''0x4f54484552''),
         NetworkAtSettles 2 (Fulfilled ''0x4f54484552''),
         NetworkAtSettles 2 (Fulfilled ''0x4e4557''),
         NetworkAtSettles 1 (Fulfilled KEEP3R_NETWORK_TAG)]
        (main_flashbots example_sequencer_last initial)) = 3
   \<and> keep3rSequencerPosition (turns_flashbots
        [AddNetwork 13, NumNetworksSettles 1 (Fulfilled 4),
         NetworkAtSettles 1 (Fulfilled ''0x4f54484552''),
         NetworkAtSettles 1 (Fulfilled ''0x4f54484552''),
         RemoveNetwork, NumNetworksSettles 2 (Fulfilled 3),
         NetworkAtSettles 2 (Fulfilled ''0x4f54484552''),
         NetworkAtSettles 2 (Fulfilled ''0x4f54484552''),
         NetworkAtSettles 2 (Fulfilled ''0x4e4557''),
         NetworkAtSettles 1 (Fulfilled KEEP3R_NETWORK_TAG)]
        (main_flashbots example_sequencer_last initial)) = 2
   \<and> scans (turns_flashbots
        [AddNetwork 13, NumNetworksSettles 1 (Fulfilled 4),
         NetworkAtSettles 1 (Fulfilled ''0x4f54484552''),
         NetworkAtSettles 1 (Fulfilled ''0x4f54484552''),
         RemoveNetwork, NumNetworksSettles 2 (Fulfilled 3),
         NetworkAtSettles 2 (Fulfilled ''0x4f54484552''),
         NetworkAtSettles 2 (Fulfilled ''0x4f54484552''),
         NetworkAtSettles 2 (Fulfilled ''0x4e4557''),
         NetworkAtSettles 1 (Fulfilled KEEP3R_NETWORK_TAG)]
        (main_flashbots example_sequencer_last initial))
       = [ScanReturned, ScanReturned, ScanReturned]"
  unfolding main_flashbots_last by (simp add: networks_defs)


section \<open>The in-progress flag of \<^verbatim>\<open>tryToWorkJob\<close>\<close>

subsection \<open>The flags and the activations under each stretch\<close>

lemma flags_log_call [simp]: "jobWorkInProgress (log_call c st) = jobWorkInProgress st"
  and attempts_log_call [simp]: "attempts (log_call c st) = attempts st"
  and calls_log_call [simp]: "calls (log_call c st) = calls st @ [c]"
  by (simp_all add: log_call_def)

lemma flags_set_stage [simp]: "jobWorkInProgress (set_stage i s st) = jobWorkInProgress st"
  and attempts_set_stage [simp]:
    "attempts (set_stage i s st) = (attempts st)[i := (attempts st ! i)\<lparr>attempt_stage := s\<rparr>]"
  and calls_set_stage [simp]: "calls (set_stage i s st) = calls st"
  by (simp_all add: set_stage_def)

lemma flags_unsubscribe [simp]: "jobWorkInProgress (unsubscribe f st) = jobWorkInProgress st"
  and attempts_unsubscribe [simp]: "attempts (unsubscribe f st) = attempts st"
  by (cases f, simp)+

lemma flags_finally_block [simp]:
    "jobWorkInProgress (finally_block i st)
       = (jobWorkInProgress st)(attempt_job (attempts st ! i) \<mapsto> False)"
  and attempts_finally_block [simp]:
    "attempts (finally_block i st) = (attempts st)[i := (attempts st ! i)\<lparr>attempt_stage := Returned\<rparr>]"
  and calls_finally_block [simp]: "calls (finally_block i st) = calls st"
  by (simp_all add: finally_block_def)

lemma flags_catch_block [simp]:
    "jobWorkInProgress (catch_block i e st)
       = (jobWorkInProgress st)(attempt_job (attempts st ! i) \<mapsto> False)"
  and attempts_catch_block [simp]:
    "attempts (catch_block i e st) = (attempts st)[i := (attempts st ! i)\<lparr>attempt_stage := Returned\<rparr>]"
  and calls_catch_block [simp]: "calls (catch_block i e st) = calls st @ [ConsoleError e]"
  by (simp_all add: catch_block_def)

lemma flags_run_flashbots [simp]: "jobWorkInProgress (run_flashbots st) = jobWorkInProgress st"
  and attempts_run_flashbots [simp]: "attempts (run_flashbots st) = attempts st"
  by (simp_all add: run_flashbots_def)

lemma flags_run_flashbots_getBlock [simp]:
    "jobWorkInProgress (run_flashbots_getBlock k r st) = jobWorkInProgress st"
  and attempts_run_flashbots_getBlock [simp]:
    "attempts (run_flashbots_getBlock k r st) = attempts st"
  by (simp_all add: run_flashbots_getBlock_def Let_def split: settled.splits)

lemma flags_timer_callback [simp]: "jobWorkInProgress (timer_callback k st) = jobWorkInProgress st"
  and attempts_timer_callback [simp]: "attempts (timer_callback k st) = attempts st"
  by (simp_all add: timer_callback_def)

lemma flags_AddJob_handler [simp]: "jobWorkInProgress (AddJob_handler a st) = jobWorkInProgress st"
  and attempts_AddJob_handler [simp]: "attempts (AddJob_handler a st) = attempts st"
  by (simp_all add: AddJob_handler_def)

lemma flags_RemoveJob_handler [simp]:
    "jobWorkInProgress (RemoveJob_handler a st) = jobWorkInProgress st"
  and attempts_RemoveJob_handler [simp]: "attempts (RemoveJob_handler a st) = attempts st"
  by (simp_all add: RemoveJob_handler_def Let_def split: option.splits)

lemma flags_networks_only:
  assumes "networks_only st st'"
  shows "jobWorkInProgress st' = jobWorkInProgress st" and "attempts st' = attempts st"
  using assms by (simp_all add: networks_only_def)

lemma flags_fetchAndUpdateNetworksData [simp]:
    "jobWorkInProgress (fetchAndUpdateNetworksData_numNetworks k r st) = jobWorkInProgress st"
    "jobWorkInProgress (fetchAndUpdateNetworksData_networkAt k b st) = jobWorkInProgress st"
  and attempts_fetchAndUpdateNetworksData [simp]:
    "attempts (fetchAndUpdateNetworksData_numNetworks k r st) = attempts st"
    "attempts (fetchAndUpdateNetworksData_networkAt k b st) = attempts st"
  by (rule flags_networks_only, rule networks_only_numNetworks,
      rule flags_networks_only, rule networks_only_networkAt)+

lemma flags_network_handlers [simp]:
    "jobWorkInProgress (AddNetwork_handler w st) = jobWorkInProgress st"
    "jobWorkInProgress (RemoveNetwork_handler st) = jobWorkInProgress st"
  and attempts_network_handlers [simp]:
    "attempts (AddNetwork_handler w st) = attempts st"
    "attempts (RemoveNetwork_handler st) = attempts st"
  by (simp_all add: AddNetwork_handler_def RemoveNetwork_handler_def
      fetchAndUpdateNetworksData_def split: settled.splits)

lemma flags_fetches [simp]:
    "jobWorkInProgress (snd (fetchBlocksInWindowAndSubscribeToChanges seq st)) = jobWorkInProgress st"
    "jobWorkInProgress (snd (fetchJobsAndSubscribeToChanges seq st)) = jobWorkInProgress st"
    "jobWorkInProgress (snd (fetchNetworksAndSubscribeToChanges seq st)) = jobWorkInProgress st"
  and attempts_fetches [simp]:
    "attempts (snd (fetchBlocksInWindowAndSubscribeToChanges seq st)) = attempts st"
    "attempts (snd (fetchJobsAndSubscribeToChanges seq st)) = attempts st"
    "attempts (snd (fetchNetworksAndSubscribeToChanges seq st)) = attempts st"
  using flags_networks_only [OF networks_only_fetchNetworks [of st seq]]
  by (simp_all add: fetchBlocksInWindowAndSubscribeToChanges_def
      fetchJobsAndSubscribeToChanges_def split: settled.splits)


subsection \<open>A flag that is set has an activation inside its \<^verbatim>\<open>try\<close> block\<close>

lemma flags_owned_frame:
  assumes "flags_owned st"
    and "jobWorkInProgress st' = jobWorkInProgress st"
    and "attempts st' = attempts st"
  shows "flags_owned st'"
  using assms(1) unfolding flags_owned_def assms(2,3) .

lemma flags_owned_append:
  assumes "flags_owned st"
    and "jobWorkInProgress st' = jobWorkInProgress st"
    and "attempts st' = attempts st @ new"
  shows "flags_owned st'"
  unfolding flags_owned_def
proof (intro allI impI)
  fix job assume "jobWorkInProgress st' job = Some True"
  then have "jobWorkInProgress st job = Some True" by (simp add: assms(2))
  with assms(1) obtain k where k: "k < length (attempts st)"
      "attempt_job (attempts st ! k) = job" "in_try (attempt_stage (attempts st ! k))"
    unfolding flags_owned_def by blast
  then have "k < length (attempts st') \<and> attempt_job (attempts st' ! k) = job
      \<and> in_try (attempt_stage (attempts st' ! k))"
    by (simp add: assms(3) nth_append)
  then show "\<exists>k<length (attempts st'). attempt_job (attempts st' ! k) = job
      \<and> in_try (attempt_stage (attempts st' ! k))" by blast
qed

lemma flags_owned_update:
  assumes inv: "flags_owned st"
    and i: "i < length (attempts st)"
    and att: "attempts st' = (attempts st)[i := (attempts st ! i)\<lparr>attempt_stage := s\<rparr>]"
    and others: "\<forall>job. job \<noteq> attempt_job (attempts st ! i)
                   \<longrightarrow> jobWorkInProgress st' job = jobWorkInProgress st job"
    and own: "in_try s
        \<or> jobWorkInProgress st' (attempt_job (attempts st ! i)) \<noteq> Some True
        \<or> (\<not> in_try (attempt_stage (attempts st ! i))
            \<and> jobWorkInProgress st' (attempt_job (attempts st ! i))
                = jobWorkInProgress st (attempt_job (attempts st ! i)))"
  shows "flags_owned st'"
  unfolding flags_owned_def
proof (intro allI impI)
  fix job assume flag: "jobWorkInProgress st' job = Some True"
  have len: "length (attempts st') = length (attempts st)" by (simp add: att)
  have at_i: "attempts st' ! i = (attempts st ! i)\<lparr>attempt_stage := s\<rparr>"
    using i by (simp add: att)
  have elsewhere: "attempts st' ! k = attempts st ! k" if "k \<noteq> i" for k
    using that by (simp add: att)
  have kept: "\<exists>k<length (attempts st'). attempt_job (attempts st' ! k) = job
      \<and> in_try (attempt_stage (attempts st' ! k))"
    if old: "jobWorkInProgress st job = Some True"
      and not_i: "job \<noteq> attempt_job (attempts st ! i) \<or> \<not> in_try (attempt_stage (attempts st ! i))"
  proof -
    from inv old obtain k where k: "k < length (attempts st)"
        "attempt_job (attempts st ! k) = job" "in_try (attempt_stage (attempts st ! k))"
      unfolding flags_owned_def by blast
    with not_i have "k \<noteq> i" by auto
    with k elsewhere [of k] len show ?thesis by auto
  qed
  show "\<exists>k<length (attempts st'). attempt_job (attempts st' ! k) = job
      \<and> in_try (attempt_stage (attempts st' ! k))"
  proof (cases "job = attempt_job (attempts st ! i)")
    case False
    with others flag have "jobWorkInProgress st job = Some True" by simp
    with False kept show ?thesis by blast
  next
    case True
    from own flag True consider (entered) "in_try s"
      | (outside) "\<not> in_try (attempt_stage (attempts st ! i))"
          "jobWorkInProgress st job = Some True"
      by auto
    then show ?thesis
    proof cases
      case entered
      with True i len at_i show ?thesis by (intro exI [of _ i]) simp
    next
      case outside
      with kept show ?thesis by blast
    qed
  qed
qed

lemma flags_owned_tryToWorkJob:
  assumes "flags_owned st"
  shows "flags_owned (tryToWorkJob job block st)"
proof (cases "jobWorkInProgress st job = Some True")
  case True
  with assms show ?thesis
    by (intro flags_owned_append [OF assms]) (simp_all add: tryToWorkJob_def)
next
  case False
  with assms show ?thesis
    by (intro flags_owned_append [OF assms]) (simp_all add: tryToWorkJob_def)
qed

lemma flags_owned_foldl_tryToWorkJob:
  "flags_owned st \<Longrightarrow> flags_owned (foldl (\<lambda>s jobAddress. tryToWorkJob jobAddress n s) st as)"
  by (induction as arbitrary: st) (simp_all add: flags_owned_tryToWorkJob)

lemma flags_owned_tryToWorkJob_workable:
  assumes "flags_owned st"
  shows "flags_owned (tryToWorkJob_workable i r st)"
proof (cases "i < length (attempts st) \<and> attempt_stage (attempts st ! i) = AwaitWorkable")
  case False
  have "tryToWorkJob_workable i r st = st"
    unfolding tryToWorkJob_workable_def by (rule if_not_P [OF False])
  with assms show ?thesis by simp
next
  case True
  then have i: "i < length (attempts st)" and out: "\<not> in_try (attempt_stage (attempts st ! i))"
    by simp_all
  show ?thesis
  proof (cases r)
    case (Rejected e)
    with True have eq: "tryToWorkJob_workable i r st = set_stage i (Threw e) st"
      by (simp add: tryToWorkJob_workable_def)
    show ?thesis unfolding eq
      by (rule flags_owned_update [OF assms i, where s = "Threw e"]) (simp_all add: out)
  next
    case (Fulfilled p)
    obtain isWorkable args where p: "p = (isWorkable, args)" by (cases p)
    show ?thesis
    proof (cases isWorkable)
      case False
      with True Fulfilled p have eq: "tryToWorkJob_workable i r st = set_stage i Returned st"
        by (simp add: tryToWorkJob_workable_def)
      show ?thesis unfolding eq
        by (rule flags_owned_update [OF assms i, where s = Returned]) (simp_all add: out)
    next
      case True
      with \<open>i < length (attempts st) \<and> attempt_stage (attempts st ! i) = AwaitWorkable\<close>
        Fulfilled p
      have eq: "tryToWorkJob_workable i r st
          = set_stage i (AwaitNonce args)
              (log_call GetTransactionCount
                 (st\<lparr>jobWorkInProgress :=
                       (jobWorkInProgress st)(attempt_job (attempts st ! i) \<mapsto> True)\<rparr>))"
        by (simp add: tryToWorkJob_workable_def)
      show ?thesis unfolding eq
        by (rule flags_owned_update [OF assms i, where s = "AwaitNonce args"]) simp_all
    qed
  qed
qed


lemma flags_owned_catch_block:
  assumes "flags_owned st" and "i < length (attempts st)"
  shows "flags_owned (catch_block i e st)"
  by (rule flags_owned_update [OF assms, where s = Returned]) simp_all

lemma flags_owned_finally_block:
  assumes "flags_owned st" and "i < length (attempts st)"
  shows "flags_owned (finally_block i st)"
  by (rule flags_owned_update [OF assms, where s = Returned]) simp_all

lemma flags_owned_tryToWorkJob_nonce:
  assumes "flags_owned st"
  shows "flags_owned (tryToWorkJob_nonce i r gas st)"
proof (cases "i < length (attempts st)")
  case False
  with assms show ?thesis by (simp add: tryToWorkJob_nonce_def)
next
  case i: True
  show ?thesis
  proof (cases "attempt_stage (attempts st ! i)")
    case (AwaitNonce args)
    show ?thesis
    proof (cases r)
      case (Rejected e)
      with i AwaitNonce show ?thesis
        by (simp add: tryToWorkJob_nonce_def flags_owned_catch_block [OF assms])
    next
      case (Fulfilled currentNonce)
      show ?thesis
      proof (cases gas)
        case (Rejected e)
        with i AwaitNonce Fulfilled show ?thesis
          by (simp add: tryToWorkJob_nonce_def flags_owned_catch_block [OF assms])
      next
        case gas: (Fulfilled u)
        with i AwaitNonce Fulfilled
        have eq: "tryToWorkJob_nonce i r gas st
            = set_stage i (AwaitPopulate args)
                (log_call (PopulateTransactions (attempt_job (attempts st ! i)) args currentNonce)
                   st)"
          by (simp add: tryToWorkJob_nonce_def)
        show ?thesis unfolding eq
          by (rule flags_owned_update [OF assms i, where s = "AwaitPopulate args"]) simp_all
      qed
    qed
  qed (use assms i in \<open>simp_all add: tryToWorkJob_nonce_def\<close>)
qed

lemma flags_owned_tryToWorkJob_populated:
  assumes "flags_owned st"
  shows "flags_owned (tryToWorkJob_populated i r bundles st)"
proof (cases "i < length (attempts st)")
  case False
  with assms show ?thesis by (simp add: tryToWorkJob_populated_def)
next
  case i: True
  show ?thesis
  proof (cases "attempt_stage (attempts st ! i)")
    case (AwaitPopulate args)
    show ?thesis
    proof (cases r)
      case (Rejected e)
      with i AwaitPopulate show ?thesis
        by (simp add: tryToWorkJob_populated_def flags_owned_catch_block [OF assms])
    next
      case (Fulfilled txs)
      show ?thesis
      proof (cases bundles)
        case (Rejected e)
        with i AwaitPopulate Fulfilled show ?thesis
          by (simp add: tryToWorkJob_populated_def flags_owned_catch_block [OF assms])
      next
        case b: (Fulfilled u)
        with i AwaitPopulate Fulfilled
        have eq: "tryToWorkJob_populated i r bundles st
            = set_stage i AwaitSend
                (log_call (SendAndRetryUntilNotWorkable (attempt_job (attempts st ! i))) st)"
          by (simp add: tryToWorkJob_populated_def)
        show ?thesis unfolding eq
          by (rule flags_owned_update [OF assms i, where s = AwaitSend]) simp_all
      qed
    qed
  qed (use assms i in \<open>simp_all add: tryToWorkJob_populated_def\<close>)
qed

lemma flags_owned_tryToWorkJob_sent:
  assumes "flags_owned st"
  shows "flags_owned (tryToWorkJob_sent i r st)"
proof (cases "i < length (attempts st) \<and> attempt_stage (attempts st ! i) = AwaitSend")
  case False
  have "tryToWorkJob_sent i r st = st"
    unfolding tryToWorkJob_sent_def by (rule if_not_P [OF False])
  with assms show ?thesis by simp
next
  case True
  then have i: "i < length (attempts st)" by simp
  from True show ?thesis
    by (cases r)
      (simp_all add: tryToWorkJob_sent_def flags_owned_catch_block [OF assms i]
        flags_owned_finally_block [OF assms i])
qed

lemma flags_owned_blockHandler_flashbots:
  assumes "flags_owned st"
  shows "flags_owned (blockHandler_flashbots k n st)"
proof -
  have 1: "flags_owned (run_flashbots (unsubscribe (Unsubscribe k) st))"
    by (rule flags_owned_frame [OF assms]) simp_all
  have 2: "flags_owned (foldl (\<lambda>s jobAddress. tryToWorkJob jobAddress n s) st (map fst (jobs st)))"
    using assms by (rule flags_owned_foldl_tryToWorkJob)
  from assms 1 2 show ?thesis
    unfolding blockHandler_flashbots_def by (simp only: if_split) blast
qed

lemma flags_owned_foldl_blockHandler_flashbots:
  "flags_owned st \<Longrightarrow> flags_owned (foldl (\<lambda>s k. blockHandler_flashbots k n s) st ks)"
  by (induction ks arbitrary: st) (simp_all add: flags_owned_blockHandler_flashbots)

lemma flags_owned_turn_flashbots:
  assumes "flags_owned st"
  shows "flags_owned (turn_flashbots t st)"
proof (cases t)
  case (NewBlock n)
  with assms show ?thesis by (simp add: flags_owned_foldl_blockHandler_flashbots)
next
  case (WorkableSettles i r)
  with assms show ?thesis by (simp add: flags_owned_tryToWorkJob_workable)
next
  case (NonceSettles i r gas)
  with assms show ?thesis by (simp add: flags_owned_tryToWorkJob_nonce)
next
  case (PopulateSettles i r bundles)
  with assms show ?thesis by (simp add: flags_owned_tryToWorkJob_populated)
next
  case (SendSettles i r)
  with assms show ?thesis by (simp add: flags_owned_tryToWorkJob_sent)
qed (simp_all, (rule flags_owned_frame [OF assms], simp, simp)+)

lemma flags_owned_turns_flashbots:
  "flags_owned st \<Longrightarrow> flags_owned (turns_flashbots ts st)"
  unfolding turns_flashbots_def
  by (induction ts arbitrary: st) (simp_all add: flags_owned_turn_flashbots)

lemma flags_owned_initial: "flags_owned initial"
  by (simp add: flags_owned_def initial_def)

lemma flags_main_flashbots:
  "jobWorkInProgress (main_flashbots seq st) = jobWorkInProgress st"
  "attempts (main_flashbots seq st) = attempts st"
proof -
  obtain r1 s1 where e1: "fetchBlocksInWindowAndSubscribeToChanges seq st = (r1, s1)"
    by (cases "fetchBlocksInWindowAndSubscribeToChanges seq st")
  obtain r2 s2 where e2: "fetchJobsAndSubscribeToChanges seq s1 = (r2, s2)"
    by (cases "fetchJobsAndSubscribeToChanges seq s1")
  obtain r3 s3 where e3: "fetchNetworksAndSubscribeToChanges seq s2 = (r3, s3)"
    by (cases "fetchNetworksAndSubscribeToChanges seq s2")
  have 1: "jobWorkInProgress s1 = jobWorkInProgress st" "attempts s1 = attempts st"
    using flags_fetches(1) [of seq st] attempts_fetches(1) [of seq st] e1 by simp_all
  have 2: "jobWorkInProgress s2 = jobWorkInProgress st" "attempts s2 = attempts st"
    using flags_fetches(2) [of seq s1] attempts_fetches(2) [of seq s1] e2 1 by simp_all
  have 3: "jobWorkInProgress s3 = jobWorkInProgress st" "attempts s3 = attempts st"
    using flags_fetches(3) [of seq s2] attempts_fetches(3) [of seq s2] e3 2 by simp_all
  show "jobWorkInProgress (main_flashbots seq st) = jobWorkInProgress st"
    by (cases r1; cases r2; cases r3) (simp_all add: main_flashbots_def e1 e2 e3 1 2 3)
  show "attempts (main_flashbots seq st) = attempts st"
    by (cases r1; cases r2; cases r3) (simp_all add: main_flashbots_def e1 e2 e3 1 2 3)
qed

lemma flags_owned_main_flashbots: "flags_owned (main_flashbots seq initial)"
  by (rule flags_owned_frame [OF flags_owned_initial]) (simp_all add: flags_main_flashbots)

subsection \<open>A run of the Flashbots script\<close>

lemmas flashbots_defs =
  blockHandler_flashbots_def tryToWorkJob_def tryToWorkJob_workable_def
  tryToWorkJob_nonce_def tryToWorkJob_populated_def tryToWorkJob_sent_def
  run_flashbots_getBlock_def timer_callback_def set_stage_def finally_block_def
  catch_block_def calculateNextMasterWindow_exact js_add_num js_sub_num js_mul_num
  setTimeout_delay_num BLOCK_DURATION_def TOLERANCE_THRESHOLD_def

lemma example_listening_reached:
  "turns_flashbots [GetBlockSettles 0 (Fulfilled 100), TimerFires 0]
     (main_flashbots example_sequencer initial) = example_listening"
  unfolding main_flashbots_example
  by (simp add: turns_flashbots_def flashbots_defs example_listening_def initial_def)

lemma turns_flashbots_append:
  "turns_flashbots (ts @ us) st = turns_flashbots us (turns_flashbots ts st)"
  by (simp add: turns_flashbots_def)

lemma example_two_blocks:
  "turns_flashbots [NewBlock 130, NewBlock 131] example_listening
     = example_listening
         \<lparr>attempts :=
            [\<lparr>attempt_job = ''0xJobA'', attempt_block = 130, attempt_stage = AwaitWorkable\<rparr>,
             \<lparr>attempt_job = ''0xJobB'', attempt_block = 130, attempt_stage = AwaitWorkable\<rparr>,
             \<lparr>attempt_job = ''0xJobA'', attempt_block = 131, attempt_stage = AwaitWorkable\<rparr>,
             \<lparr>attempt_job = ''0xJobB'', attempt_block = 131, attempt_stage = AwaitWorkable\<rparr>],
          calls := [GetBlock, Workable ''0xJobA'', Workable ''0xJobB'',
                    Workable ''0xJobA'', Workable ''0xJobB'']\<rparr>"
  by (simp add: turns_flashbots_def flashbots_defs example_listening_def initial_def log_call_def)


lemma example_one_sending:
  "turns_flashbots
     [NewBlock 130, WorkableSettles 0 (Fulfilled (True, ''0xargs'')),
      NonceSettles 0 (Fulfilled 7) (Fulfilled ()),
      PopulateSettles 0 (Fulfilled ()) (Fulfilled ())] example_listening
     = example_listening
         \<lparr>jobWorkInProgress := [''0xJobA'' \<mapsto> True],
          attempts :=
            [\<lparr>attempt_job = ''0xJobA'', attempt_block = 130, attempt_stage = AwaitSend\<rparr>,
             \<lparr>attempt_job = ''0xJobB'', attempt_block = 130, attempt_stage = AwaitWorkable\<rparr>],
          calls := [GetBlock, Workable ''0xJobA'', Workable ''0xJobB'', GetTransactionCount,
                    PopulateTransactions ''0xJobA'' ''0xargs'' 7,
                    SendAndRetryUntilNotWorkable ''0xJobA'']\<rparr>"
  by (simp add: turns_flashbots_def flashbots_defs example_listening_def initial_def log_call_def)

lemma example_both_sending:
  "turns_flashbots
     [NewBlock 130, NewBlock 131,
      WorkableSettles 0 (Fulfilled (True, ''0xargs'')),
      WorkableSettles 2 (Fulfilled (True, ''0xargs'')),
      NonceSettles 0 (Fulfilled 7) (Fulfilled ()),
      NonceSettles 2 (Fulfilled 7) (Fulfilled ()),
      PopulateSettles 0 (Fulfilled ()) (Fulfilled ()),
      PopulateSettles 2 (Fulfilled ()) (Fulfilled ())] example_listening
     = example_listening
         \<lparr>jobWorkInProgress := [''0xJobA'' \<mapsto> True],
          attempts :=
            [\<lparr>attempt_job = ''0xJobA'', attempt_block = 130, attempt_stage = AwaitSend\<rparr>,
             \<lparr>attempt_job = ''0xJobB'', attempt_block = 130, attempt_stage = AwaitWorkable\<rparr>,
             \<lparr>attempt_job = ''0xJobA'', attempt_block = 131, attempt_stage = AwaitSend\<rparr>,
             \<lparr>attempt_job = ''0xJobB'', attempt_block = 131, attempt_stage = AwaitWorkable\<rparr>],
          calls := [GetBlock, Workable ''0xJobA'', Workable ''0xJobB'',
                    Workable ''0xJobA'', Workable ''0xJobB'',
                    GetTransactionCount, GetTransactionCount,
                    PopulateTransactions ''0xJobA'' ''0xargs'' 7,
                    PopulateTransactions ''0xJobA'' ''0xargs'' 7,
                    SendAndRetryUntilNotWorkable ''0xJobA'',
                    SendAndRetryUntilNotWorkable ''0xJobA'']\<rparr>"
  by (simp add: turns_flashbots_def flashbots_defs example_listening_def initial_def log_call_def)

text \<open>
  The guard alone: an activation that begins while the flag of its job is set returns at
  once. It calls nothing and writes nothing.
\<close>

lemma tryToWorkJob_in_progress_returns:
  assumes "jobWorkInProgress st job = Some True"
  shows "tryToWorkJob job block st
     = st\<lparr>attempts := attempts st @
            [\<lparr>attempt_job = job, attempt_block = block, attempt_stage = Returned\<rparr>]\<rparr>"
  using assms by (simp add: tryToWorkJob_def)

text \<open>
  C2. The claim: an attempt that begins while the flag of its job is set returns without
  a broadcast, so that at most one attempt per job is in flight and two detections close
  together give one broadcast. The guard does what the first part says (lemma
  \<open>tryToWorkJob_in_progress_returns\<close>), but the flag is only set after \<^verbatim>\<open>job.workable\<close> has
  answered. Here blocks 130 and 131 of the window arrive before the answers for block 130:
  both activations for job A pass the guard, both find the job workable, and both reach
  \<^verbatim>\<open>sendAndRetryUntilNotWorkable\<close>. Two broadcasts for job A are in flight together.
\<close>

theorem tryToWorkJob_two_broadcasts_in_flight:
  "map attempt_stage (attempts (turns_flashbots
     [GetBlockSettles 0 (Fulfilled 100), TimerFires 0, NewBlock 130, NewBlock 131,
      WorkableSettles 0 (Fulfilled (True, ''0xargs'')),
      WorkableSettles 2 (Fulfilled (True, ''0xargs'')),
      NonceSettles 0 (Fulfilled 7) (Fulfilled ()),
      NonceSettles 2 (Fulfilled 7) (Fulfilled ()),
      PopulateSettles 0 (Fulfilled ()) (Fulfilled ()),
      PopulateSettles 2 (Fulfilled ()) (Fulfilled ())]
     (main_flashbots example_sequencer initial)))
   = [AwaitSend, AwaitWorkable, AwaitSend, AwaitWorkable]
   \<and> map attempt_job (attempts (turns_flashbots
     [GetBlockSettles 0 (Fulfilled 100), TimerFires 0, NewBlock 130, NewBlock 131,
      WorkableSettles 0 (Fulfilled (True, ''0xargs'')),
      WorkableSettles 2 (Fulfilled (True, ''0xargs'')),
      NonceSettles 0 (Fulfilled 7) (Fulfilled ()),
      NonceSettles 2 (Fulfilled 7) (Fulfilled ()),
      PopulateSettles 0 (Fulfilled ()) (Fulfilled ()),
      PopulateSettles 2 (Fulfilled ()) (Fulfilled ())]
     (main_flashbots example_sequencer initial)))
   = [''0xJobA'', ''0xJobB'', ''0xJobA'', ''0xJobB'']
   \<and> filter (\<lambda>c. c = SendAndRetryUntilNotWorkable ''0xJobA'') (calls (turns_flashbots
     [GetBlockSettles 0 (Fulfilled 100), TimerFires 0, NewBlock 130, NewBlock 131,
      WorkableSettles 0 (Fulfilled (True, ''0xargs'')),
      WorkableSettles 2 (Fulfilled (True, ''0xargs'')),
      NonceSettles 0 (Fulfilled 7) (Fulfilled ()),
      NonceSettles 2 (Fulfilled 7) (Fulfilled ()),
      PopulateSettles 0 (Fulfilled ()) (Fulfilled ()),
      PopulateSettles 2 (Fulfilled ()) (Fulfilled ())]
     (main_flashbots example_sequencer initial)))
   = [SendAndRetryUntilNotWorkable ''0xJobA'', SendAndRetryUntilNotWorkable ''0xJobA'']"
proof -
  have "turns_flashbots
     ([GetBlockSettles 0 (Fulfilled 100), TimerFires 0] @
      [NewBlock 130, NewBlock 131,
       WorkableSettles 0 (Fulfilled (True, ''0xargs'')),
       WorkableSettles 2 (Fulfilled (True, ''0xargs'')),
       NonceSettles 0 (Fulfilled 7) (Fulfilled ()),
       NonceSettles 2 (Fulfilled 7) (Fulfilled ()),
       PopulateSettles 0 (Fulfilled ()) (Fulfilled ()),
       PopulateSettles 2 (Fulfilled ()) (Fulfilled ())])
     (main_flashbots example_sequencer initial)
    = example_listening
         \<lparr>jobWorkInProgress := [''0xJobA'' \<mapsto> True],
          attempts :=
            [\<lparr>attempt_job = ''0xJobA'', attempt_block = 130, attempt_stage = AwaitSend\<rparr>,
             \<lparr>attempt_job = ''0xJobB'', attempt_block = 130, attempt_stage = AwaitWorkable\<rparr>,
             \<lparr>attempt_job = ''0xJobA'', attempt_block = 131, attempt_stage = AwaitSend\<rparr>,
             \<lparr>attempt_job = ''0xJobB'', attempt_block = 131, attempt_stage = AwaitWorkable\<rparr>],
          calls := [GetBlock, Workable ''0xJobA'', Workable ''0xJobB'',
                    Workable ''0xJobA'', Workable ''0xJobB'',
                    GetTransactionCount, GetTransactionCount,
                    PopulateTransactions ''0xJobA'' ''0xargs'' 7,
                    PopulateTransactions ''0xJobA'' ''0xargs'' 7,
                    SendAndRetryUntilNotWorkable ''0xJobA'',
                    SendAndRetryUntilNotWorkable ''0xJobA'']\<rparr>"
    unfolding turns_flashbots_append example_listening_reached example_both_sending ..
  then show ?thesis by simp
qed

text \<open>
  C3. An activation of \<^verbatim>\<open>tryToWorkJob\<close> that waits for the broadcast concludes when the
  broadcast settles, whatever the outcome \<open>r\<close> (included, not included, or an exception):
  it has returned and the flag of its job is \<^verbatim>\<open>false\<close>. And in every state the script
  reaches, a flag that is \<^verbatim>\<open>true\<close> belongs to an activation for that job that still stands
  inside its \<^verbatim>\<open>try\<close> block: no flag stays set after the attempts for its job have ended.
\<close>

theorem tryToWorkJob_clears_flag:
  "(i < length (attempts st) \<and> attempt_stage (attempts st ! i) = AwaitSend \<longrightarrow>
      attempt_stage (attempts (tryToWorkJob_sent i r st) ! i) = Returned
      \<and> jobWorkInProgress (tryToWorkJob_sent i r st) (attempt_job (attempts st ! i)) = Some False)
   \<and> flags_owned (turns_flashbots ts (main_flashbots seq initial))"
proof (intro conjI impI)
  assume a: "i < length (attempts st) \<and> attempt_stage (attempts st ! i) = AwaitSend"
  then show "attempt_stage (attempts (tryToWorkJob_sent i r st) ! i) = Returned"
    by (cases r) (simp_all add: tryToWorkJob_sent_def)
  from a show "jobWorkInProgress (tryToWorkJob_sent i r st) (attempt_job (attempts st ! i))
      = Some False"
    by (cases r) (simp_all add: tryToWorkJob_sent_def)
next
  show "flags_owned (turns_flashbots ts (main_flashbots seq initial))"
    by (intro flags_owned_turns_flashbots flags_owned_main_flashbots)
qed


theorem tryToWorkJob_clears_flag_witness:
  "0 < length (attempts (turns_flashbots
       [GetBlockSettles 0 (Fulfilled 100), TimerFires 0, NewBlock 130,
        WorkableSettles 0 (Fulfilled (True, ''0xargs'')),
        NonceSettles 0 (Fulfilled 7) (Fulfilled ()),
        PopulateSettles 0 (Fulfilled ()) (Fulfilled ())]
       (main_flashbots example_sequencer initial)))
   \<and> attempt_stage (attempts (turns_flashbots
       [GetBlockSettles 0 (Fulfilled 100), TimerFires 0, NewBlock 130,
        WorkableSettles 0 (Fulfilled (True, ''0xargs'')),
        NonceSettles 0 (Fulfilled 7) (Fulfilled ()),
        PopulateSettles 0 (Fulfilled ()) (Fulfilled ())]
       (main_flashbots example_sequencer initial)) ! 0) = AwaitSend
   \<and> jobWorkInProgress (turns_flashbots
       [GetBlockSettles 0 (Fulfilled 100), TimerFires 0, NewBlock 130,
        WorkableSettles 0 (Fulfilled (True, ''0xargs'')),
        NonceSettles 0 (Fulfilled 7) (Fulfilled ()),
        PopulateSettles 0 (Fulfilled ()) (Fulfilled ())]
       (main_flashbots example_sequencer initial)) ''0xJobA'' = Some True
   \<and> jobWorkInProgress (tryToWorkJob_sent 0 (Rejected ''relay unreachable'') (turns_flashbots
       [GetBlockSettles 0 (Fulfilled 100), TimerFires 0, NewBlock 130,
        WorkableSettles 0 (Fulfilled (True, ''0xargs'')),
        NonceSettles 0 (Fulfilled 7) (Fulfilled ()),
        PopulateSettles 0 (Fulfilled ()) (Fulfilled ())]
       (main_flashbots example_sequencer initial))) ''0xJobA'' = Some False
   \<and> flags_owned (turns_flashbots
       [GetBlockSettles 0 (Fulfilled 100), TimerFires 0, NewBlock 130,
        WorkableSettles 0 (Fulfilled (True, ''0xargs'')),
        NonceSettles 0 (Fulfilled 7) (Fulfilled ()),
        PopulateSettles 0 (Fulfilled ()) (Fulfilled ())]
       (main_flashbots example_sequencer initial))"
proof -
  let ?ts = "[GetBlockSettles 0 (Fulfilled 100), TimerFires 0, NewBlock 130,
        WorkableSettles 0 (Fulfilled (True, ''0xargs'')),
        NonceSettles 0 (Fulfilled 7) (Fulfilled ()),
        PopulateSettles 0 (Fulfilled ()) (Fulfilled ())]"
  let ?S = "turns_flashbots ?ts (main_flashbots example_sequencer initial)"
  have "turns_flashbots
     ([GetBlockSettles 0 (Fulfilled 100), TimerFires 0] @
      [NewBlock 130, WorkableSettles 0 (Fulfilled (True, ''0xargs'')),
       NonceSettles 0 (Fulfilled 7) (Fulfilled ()),
       PopulateSettles 0 (Fulfilled ()) (Fulfilled ())])
     (main_flashbots example_sequencer initial)
    = example_listening
         \<lparr>jobWorkInProgress := [''0xJobA'' \<mapsto> True],
          attempts :=
            [\<lparr>attempt_job = ''0xJobA'', attempt_block = 130, attempt_stage = AwaitSend\<rparr>,
             \<lparr>attempt_job = ''0xJobB'', attempt_block = 130, attempt_stage = AwaitWorkable\<rparr>],
          calls := [GetBlock, Workable ''0xJobA'', Workable ''0xJobB'', GetTransactionCount,
                    PopulateTransactions ''0xJobA'' ''0xargs'' 7,
                    SendAndRetryUntilNotWorkable ''0xJobA'']\<rparr>"
    unfolding turns_flashbots_append example_listening_reached example_one_sending ..
  then have S: "?S = example_listening
         \<lparr>jobWorkInProgress := [''0xJobA'' \<mapsto> True],
          attempts :=
            [\<lparr>attempt_job = ''0xJobA'', attempt_block = 130, attempt_stage = AwaitSend\<rparr>,
             \<lparr>attempt_job = ''0xJobB'', attempt_block = 130, attempt_stage = AwaitWorkable\<rparr>],
          calls := [GetBlock, Workable ''0xJobA'', Workable ''0xJobB'', GetTransactionCount,
                    PopulateTransactions ''0xJobA'' ''0xargs'' 7,
                    SendAndRetryUntilNotWorkable ''0xJobA'']\<rparr>"
    by simp
  have pre: "0 < length (attempts ?S)" "attempt_stage (attempts ?S ! 0) = AwaitSend"
    "jobWorkInProgress ?S ''0xJobA'' = Some True" "attempt_job (attempts ?S ! 0) = ''0xJobA''"
    unfolding S by simp_all
  from tryToWorkJob_clears_flag [of 0 ?S "Rejected ''relay unreachable''" ?ts example_sequencer] pre
  show ?thesis by simp
qed





section \<open>The scheduling of \<^verbatim>\<open>run\<close>\<close>

subsection \<open>The time to wait\<close>








subsection \<open>The end of the window\<close>

text \<open>
  The Flashbots script on a block at or after \<^verbatim>\<open>windowEnd\<close>: the subscription is cancelled
  and \<^verbatim>\<open>run\<close> starts again, asking for the latest block unless the position is \<open>-1\<close>.
\<close>

lemma blockHandler_flashbots_window_end:
  assumes "k < length (subscriptions st)" and "sub_active (subscriptions st ! k)"
    and "sub_windowStart (subscriptions st ! k) = num windowStart"
    and "sub_windowEnd (subscriptions st ! k) = num windowEnd"
    and "windowStart \<le> n" and "windowEnd \<le> n"
  shows "blockHandler_flashbots k n st = run_flashbots (unsubscribe (Unsubscribe k) st)"
    and "subscriptions (blockHandler_flashbots k n st)
           = (subscriptions st)[k := (subscriptions st ! k)\<lparr>sub_active := False\<rparr>]"
    and "keep3rSequencerPosition st \<noteq> - 1 \<Longrightarrow>
           runs (blockHandler_flashbots k n st) = runs st @ [AwaitGetBlock]
           \<and> calls (blockHandler_flashbots k n st) = calls st @ [Unsubscribed k, GetBlock]"
  using assms
  by (simp_all add: blockHandler_flashbots_def run_flashbots_def log_call_def)

lemma example_next_window:
  "turns_flashbots [NewBlock 143, GetBlockSettles 1 (Fulfilled 143)] example_listening
     = example_listening
         \<lparr>runs := [RunReturned, RunReturned],
          timers := [\<lparr>timer_time = num 300000, timer_delay = 300000,
                      timer_windowStart = num 130, timer_windowEnd = num 143,
                      timer_pending = False\<rparr>,
                     \<lparr>timer_time = num 252000, timer_delay = 252000,
                      timer_windowStart = num 169, timer_windowEnd = num 182,
                      timer_pending = True\<rparr>],
          subscriptions := [\<lparr>sub_windowStart = num 130, sub_windowEnd = num 143,
                             sub_active = False\<rparr>],
          calls := [GetBlock, Unsubscribed 0, GetBlock]\<rparr>"
  by (simp add: turns_flashbots_def flashbots_defs example_listening_def initial_def log_call_def
      run_flashbots_def)

lemmas broadcast_defs =
  blockHandler_broadcast_def jobWork_broadcast_def jobWork_broadcast_workable_def
  jobWork_broadcast_done_def set_stage_def log_call_def

lemma run_broadcast_example:
  "run_broadcast example_sequencer (Fulfilled 100) initial
     = initial\<lparr>blocksInWindow := 13, networksAmount := 3, keep3rSequencerPosition := 1,
               jobs := [(''0xJobA'', None), (''0xJobB'', None)],
               runs := [RunReturned],
               subscriptions := [\<lparr>sub_windowStart = num 130, sub_windowEnd = num 143,
                                  sub_active = True\<rparr>],
               scans := [ScanReturned],
               calls := [GetBlock]\<rparr>"
  by (simp add: startup_defs calculateNextMasterWindow_exact js_add_num)

text \<open>
  C5. The claim: on a block at or after \<^verbatim>\<open>windowEnd\<close> the block subscription is cancelled
  and the next window is computed. The Flashbots script does so (lemma
  \<open>blockHandler_flashbots_window_end\<close>). The broadcastor script does not: its window is
  \<open>[130, 143)\<close> here, and on block 143 the subscription stays active, \<^verbatim>\<open>job.workable\<close> is
  called for both jobs, and no new \<^verbatim>\<open>run\<close> starts.
\<close>

theorem run_broadcast_never_unsubscribes:
  "subscriptions (turns_broadcast [NewBlock 143]
       (run_broadcast example_sequencer (Fulfilled 100) initial))
     = [\<lparr>sub_windowStart = num 130, sub_windowEnd = num 143, sub_active = True\<rparr>]
   \<and> calls (turns_broadcast [NewBlock 143]
       (run_broadcast example_sequencer (Fulfilled 100) initial))
     = [GetBlock, Workable ''0xJobA'', Workable ''0xJobB'']
   \<and> runs (turns_broadcast [NewBlock 143]
       (run_broadcast example_sequencer (Fulfilled 100) initial)) = [RunReturned]"
  unfolding run_broadcast_example
  by (simp add: turns_broadcast_def broadcast_defs initial_def)

subsection \<open>A keeper that is not whitelisted\<close>

lemma run_broadcast_unlisted:
  "run_broadcast example_sequencer_unlisted (Fulfilled 100) initial
     = initial\<lparr>blocksInWindow := 13, networksAmount := 1, keep3rSequencerPosition := - 1,
               jobs := [(''0xJobA'', None), (''0xJobB'', None)],
               runs := [RunReturned],
               subscriptions := [\<lparr>sub_windowStart = num 104, sub_windowEnd = num 117,
                                  sub_active = True\<rparr>],
               scans := [ScanReturned],
               calls := [GetBlock]\<rparr>"
  by (simp add: startup_defs calculateNextMasterWindow_exact js_add_num)

text \<open>What the start of the Flashbots script leaves of the timers, subscriptions and runs.\<close>

lemma scheduling_fetches [simp]:
  "timers (snd (fetchBlocksInWindowAndSubscribeToChanges seq st)) = timers st"
  "timers (snd (fetchJobsAndSubscribeToChanges seq st)) = timers st"
  "timers (snd (fetchNetworksAndSubscribeToChanges seq st)) = timers st"
  "subscriptions (snd (fetchBlocksInWindowAndSubscribeToChanges seq st)) = subscriptions st"
  "subscriptions (snd (fetchJobsAndSubscribeToChanges seq st)) = subscriptions st"
  "subscriptions (snd (fetchNetworksAndSubscribeToChanges seq st)) = subscriptions st"
  "runs (snd (fetchBlocksInWindowAndSubscribeToChanges seq st)) = runs st"
  "runs (snd (fetchJobsAndSubscribeToChanges seq st)) = runs st"
  "runs (snd (fetchNetworksAndSubscribeToChanges seq st)) = runs st"
  using networks_only_fetchNetworks [of st seq]
  by (simp_all add: fetchBlocksInWindowAndSubscribeToChanges_def
      fetchJobsAndSubscribeToChanges_def networks_only_def split: settled.splits)

lemma main_flashbots_shape:
  "timers (main_flashbots seq st) = timers st"
  "subscriptions (main_flashbots seq st) = subscriptions st"
  "runs (main_flashbots seq st) = runs st
   \<or> runs (main_flashbots seq st) = runs st @ [RunReturned]
   \<or> runs (main_flashbots seq st) = runs st @ [AwaitGetBlock]
      \<and> keep3rSequencerPosition (main_flashbots seq st) \<noteq> - 1"
proof -
  obtain r1 s1 where e1: "fetchBlocksInWindowAndSubscribeToChanges seq st = (r1, s1)"
    by (cases "fetchBlocksInWindowAndSubscribeToChanges seq st")
  obtain r2 s2 where e2: "fetchJobsAndSubscribeToChanges seq s1 = (r2, s2)"
    by (cases "fetchJobsAndSubscribeToChanges seq s1")
  obtain r3 s3 where e3: "fetchNetworksAndSubscribeToChanges seq s2 = (r3, s3)"
    by (cases "fetchNetworksAndSubscribeToChanges seq s2")
  have 1: "timers s1 = timers st" "subscriptions s1 = subscriptions st" "runs s1 = runs st"
    using scheduling_fetches(1,4,7) [of seq st] e1 by simp_all
  have 2: "timers s2 = timers st" "subscriptions s2 = subscriptions st" "runs s2 = runs st"
    using scheduling_fetches(2,5,8) [of seq s1] e2 1 by simp_all
  have 3: "timers s3 = timers st" "subscriptions s3 = subscriptions st" "runs s3 = runs st"
    using scheduling_fetches(3,6,9) [of seq s2] e3 2 by simp_all
  have "main_flashbots seq st = s1 \<or> main_flashbots seq st = s2
      \<or> main_flashbots seq st = s3 \<or> main_flashbots seq st = run_flashbots s3"
  proof (cases r1)
    case Rejected
    then show ?thesis by (simp add: main_flashbots_def e1)
  next
    case f1: Fulfilled
    show ?thesis
    proof (cases r2)
      case Rejected
      then show ?thesis by (simp add: main_flashbots_def e1 f1 e2)
    next
      case f2: Fulfilled
      show ?thesis
        by (cases r3) (simp_all add: main_flashbots_def e1 f1 e2 f2 e3)
    qed
  qed
  then consider (a) "main_flashbots seq st = s1" | (b) "main_flashbots seq st = s2"
    | (c) "main_flashbots seq st = s3" | (d) "main_flashbots seq st = run_flashbots s3"
    by blast
  note cases = this
  from cases show "timers (main_flashbots seq st) = timers st"
    by cases (simp_all add: 1 2 3 run_flashbots_def log_call_def)
  from cases show "subscriptions (main_flashbots seq st) = subscriptions st"
    by cases (simp_all add: 1 2 3 run_flashbots_def log_call_def)
  from cases show "runs (main_flashbots seq st) = runs st
   \<or> runs (main_flashbots seq st) = runs st @ [RunReturned]
   \<or> runs (main_flashbots seq st) = runs st @ [AwaitGetBlock]
      \<and> keep3rSequencerPosition (main_flashbots seq st) \<noteq> - 1"
    by cases (simp_all add: 1 2 3 run_flashbots_def log_call_def)
qed

text \<open>
  Once halted, always halted: no turn of the event loop, the whitelist events and the
  activations they start included, starts a timer, a subscription, a read of the latest
  block or an attempt.
\<close>

lemma halted_networks_only:
  assumes "halted st" and "networks_only st st'"
  shows "halted st'"
  using assms by (simp add: halted_def networks_only_def)

lemma halted_turn_flashbots:
  assumes "halted st"
  shows "halted (turn_flashbots t st)"
proof -
  from assms have a: "attempts st = []" and t: "timers st = []"
    and s: "subscriptions st = []" and r: "AwaitGetBlock \<notin> set (runs st)"
    by (simp_all add: halted_def)
  show ?thesis
  proof (cases t)
    case (NewBlock n)
    then show ?thesis using assms by (simp add: s)
  next
    case (TimerFires k)
    then show ?thesis using assms by (simp add: timer_callback_def t)
  next
    case (GetBlockSettles k x)
    have "\<not> (k < length (runs st) \<and> runs st ! k = AwaitGetBlock)"
      using r nth_mem [of k "runs st"] by metis
    then have "run_flashbots_getBlock k x st = st"
      unfolding run_flashbots_getBlock_def by (rule if_not_P)
    with GetBlockSettles assms show ?thesis by simp
  next
    case (WorkableSettles i x)
    then show ?thesis using assms by (simp add: tryToWorkJob_workable_def a)
  next
    case (NonceSettles i x g)
    then show ?thesis using assms by (simp add: tryToWorkJob_nonce_def a)
  next
    case (PopulateSettles i x b)
    then show ?thesis using assms by (simp add: tryToWorkJob_populated_def a)
  next
    case (SendSettles i x)
    then show ?thesis using assms by (simp add: tryToWorkJob_sent_def a)
  next
    case (BroadcastSettles i x)
    then show ?thesis using assms by simp
  next
    case (AddJob j)
    then show ?thesis using assms by (simp add: AddJob_handler_def halted_def)
  next
    case (RemoveJob j)
    have "halted (unsubscribe f st)" for f
      using assms by (cases f) (simp add: halted_def log_call_def)
    then have "halted (case map_of (jobs st) j of Some (Some f) \<Rightarrow> unsubscribe f st | _ \<Rightarrow> st)"
      using assms by (simp split: option.splits)
    then have "halted (RemoveJob_handler j st)"
      unfolding RemoveJob_handler_def Let_def by (simp add: halted_def)
    with RemoveJob show ?thesis by simp
  next
    case (AddNetwork w)
    have "halted (case toNumber w of Rejected e \<Rightarrow> st | Fulfilled n \<Rightarrow> st\<lparr>blocksInWindow := n\<rparr>)"
      using assms by (simp add: halted_def split: settled.splits)
    then have "halted (AddNetwork_handler w st)"
      unfolding AddNetwork_handler_def by (rule halted_networks_only) (rule networks_only_start)
    with AddNetwork show ?thesis by simp
  next
    case RemoveNetwork
    have "halted (RemoveNetwork_handler st)"
      using assms by (rule halted_networks_only) (rule networks_only_RemoveNetwork)
    with RemoveNetwork show ?thesis by simp
  next
    case (NumNetworksSettles k x)
    have "halted (fetchAndUpdateNetworksData_numNetworks k x st)"
      using assms by (rule halted_networks_only) (rule networks_only_numNetworks)
    with NumNetworksSettles show ?thesis by simp
  next
    case (NetworkAtSettles k x)
    have "halted (fetchAndUpdateNetworksData_networkAt k x st)"
      using assms by (rule halted_networks_only) (rule networks_only_networkAt)
    with NetworkAtSettles show ?thesis by simp
  qed
qed

lemma halted_turns_flashbots:
  "halted st \<Longrightarrow> halted (turns_flashbots ts st)"
  unfolding turns_flashbots_def
  by (induction ts arbitrary: st) (simp_all add: halted_turn_flashbots)

text \<open>
  The Flashbots script whose start-up leaves the position at \<open>-1\<close> is halted, and stays so
  as long as no later activation of \<^verbatim>\<open>fetchAndUpdateNetworksData\<close> is followed by a new
  \<^verbatim>\<open>run\<close>; and nothing starts one.
\<close>

lemma flashbots_halts_when_unlisted:
  assumes "keep3rSequencerPosition (main_flashbots seq initial) = - 1"
  shows "halted (turns_flashbots ts (main_flashbots seq initial))"
proof (rule halted_turns_flashbots)
  have "attempts (main_flashbots seq initial) = []"
    by (simp add: flags_main_flashbots initial_def)
  moreover have "timers (main_flashbots seq initial) = []"
    by (simp add: main_flashbots_shape initial_def)
  moreover have "subscriptions (main_flashbots seq initial) = []"
    by (simp add: main_flashbots_shape initial_def)
  moreover have "AwaitGetBlock \<notin> set (runs (main_flashbots seq initial))"
    using main_flashbots_shape(3) [of seq initial] assms by (auto simp: initial_def)
  ultimately show "halted (main_flashbots seq initial)"
    by (simp add: halted_def)
qed

lemma main_flashbots_unlisted:
  "main_flashbots example_sequencer_unlisted initial
     = initial\<lparr>blocksInWindow := 13, networksAmount := 1, keep3rSequencerPosition := - 1,
               jobs := [(''0xJobA'', None), (''0xJobB'', None)],
               runs := [RunReturned], scans := [ScanReturned],
               calls := [ConsoleError ''The keep3r network is not whitelisted in the sequencer'']\<rparr>"
  by (simp add: startup_defs)

text \<open>
  C4. The claim: when the resync finds the keeper's position to be \<open>-1\<close>, the scheduler
  halts. The Flashbots script fetches first and tests the position in \<^verbatim>\<open>run\<close> afterwards,
  and it halts for good (lemma \<open>flashbots_halts_when_unlisted\<close>). The broadcastor script
  tests the position at the top of \<^verbatim>\<open>run\<close>, where it still holds its initial 0, and fetches
  afterwards: on a whitelist without the keeper's tag the position becomes \<open>-1\<close>, and the
  script goes on to compute a window from it, subscribes to blocks, and calls
  \<^verbatim>\<open>job.workable\<close> for every job on block 104.
\<close>

theorem run_broadcast_unlisted_keeps_working:
  "keep3rSequencerPosition (run_broadcast example_sequencer_unlisted (Fulfilled 100) initial) = - 1
   \<and> subscriptions (run_broadcast example_sequencer_unlisted (Fulfilled 100) initial)
       = [\<lparr>sub_windowStart = num 104, sub_windowEnd = num 117, sub_active = True\<rparr>]
   \<and> calls (turns_broadcast [NewBlock 104]
       (run_broadcast example_sequencer_unlisted (Fulfilled 100) initial))
       = [GetBlock, Workable ''0xJobA'', Workable ''0xJobB'']
   \<and> map attempt_stage (attempts (turns_broadcast [NewBlock 104]
       (run_broadcast example_sequencer_unlisted (Fulfilled 100) initial)))
       = [AwaitWorkable, AwaitWorkable]"
  unfolding run_broadcast_unlisted
  by (simp add: turns_broadcast_def broadcast_defs initial_def)

end
